theory Spec2Isabelle
  imports Main
begin

section \<open>Exceptions\<close>

text \<open>
  The exceptions the program can meet. A \<open>ValueError\<close> carries its message, since
  \<open>input_error\<close> returns \<open>str(e)\<close> to the user. The specification calls the \<open>ValueError\<close>
  raised by a field constructor a ValidationError.
\<close>

datatype error = ValueError string | IndexError string | OverflowError string

section \<open>Regular expressions of the \<open>re\<close> module\<close>

text \<open>
  The fragment of regular expressions the program and \<open>strptime\<close> use. \<open>rx_match r s\<close>
  lists, in the order a backtracking matcher tries them, what is left of \<open>s\<close> after each
  way \<open>r\<close> can match a prefix of it. Strings are lists of \<open>char\<close>; among these characters
  \<open>\d\<close> matches exactly \<open>0\<close> to \<open>9\<close>.
\<close>

datatype rx = Eps | Chars string | NotChars string | Seq rx rx | Alt rx rx | Plus rx

fun rx_match :: "rx \<Rightarrow> string \<Rightarrow> string list" where
  "rx_match Eps s = [s]"
| "rx_match (Chars cs) s = (case s of [] \<Rightarrow> [] | c # t \<Rightarrow> if c \<in> set cs then [t] else [])"
| "rx_match (NotChars cs) s = (case s of [] \<Rightarrow> [] | c # t \<Rightarrow> if c \<notin> set cs then [t] else [])"
| "rx_match (Seq a b) s = concat (map (rx_match b) (rx_match a s))"
| "rx_match (Alt a b) s = rx_match a s @ rx_match b s"
| "rx_match (Plus a) s =
     concat (map (\<lambda>t. if length t < length s then rx_match (Plus a) t @ [t] else [t])
                 (rx_match a s))"

definition fullmatch :: "rx \<Rightarrow> string \<Rightarrow> bool" where
  "fullmatch r s = ([] \<in> set (rx_match r s))"

fun rep :: "nat \<Rightarrow> rx \<Rightarrow> rx" where
  "rep 0 r = Eps"
| "rep (Suc n) r = Seq r (rep n r)"

definition digit :: rx where
  "digit = Chars ''0123456789''"

section \<open>Field types\<close>

datatype 'a Field = Field (val: 'a)

definition Phone_validate :: "string \<Rightarrow> bool" where
  "Phone_validate v = fullmatch (rep 10 digit) v"

definition Phone :: "string \<Rightarrow> error + string Field" where
  "Phone v =
     (if Phone_validate v then Inr (Field v)
      else Inl (ValueError ''Invalid phone number format. It should be 10 digits.''))"

definition email_rx :: rx where
  "email_rx =
     Seq (Plus (NotChars ''@'')) (Seq (Chars ''@'') (Seq (Plus (NotChars ''@''))
       (Seq (Chars ''.'') (Plus (NotChars ''@'')))))"

definition Email_validate :: "string \<Rightarrow> bool" where
  "Email_validate v = fullmatch email_rx v"

definition Email :: "string \<Rightarrow> error + string Field" where
  "Email v =
     (if Email_validate v then Inr (Field v) else Inl (ValueError ''Invalid email format.''))"

section \<open>Decimal numerals\<close>

definition digit_char :: "nat \<Rightarrow> char" where
  "digit_char n = ''0123456789'' ! (n mod 10)"

fun str_nat :: "nat \<Rightarrow> string" where
  "str_nat n = (if n < 10 then [digit_char n] else str_nat (n div 10) @ [digit_char n])"

declare str_nat.simps [simp del]

definition str_int :: "int \<Rightarrow> string" where
  "str_int i = (if i < 0 then CHR ''-'' # str_nat (nat (- i)) else str_nat (nat i))"

definition pad2 :: "int \<Rightarrow> string" where
  "pad2 i = [digit_char (nat i div 10), digit_char (nat i)]"

definition pad4 :: "int \<Rightarrow> string" where
  "pad4 i = [digit_char (nat i div 1000), digit_char (nat i div 100),
             digit_char (nat i div 10), digit_char (nat i)]"

definition digit_val :: "char \<Rightarrow> int" where
  "digit_val c = int (of_char c) - 48"

text \<open>
  \<open>int(s)\<close> on the texts \<open>strptime\<close> hands it: decimal digits, after the leading blanks
  \<open>int\<close> strips.
\<close>

definition py_int :: "string \<Rightarrow> int" where
  "py_int s = foldl (\<lambda>a c. 10 * a + digit_val c) 0 (dropWhile (\<lambda>c. c = CHR '' '') s)"

section \<open>The \<open>datetime\<close> module\<close>

record datetime =
  year :: int
  month :: int
  day :: int
  hour :: int
  minute :: int
  second :: int
  microsecond :: int

definition is_leap :: "int \<Rightarrow> bool" where
  "is_leap y = (y mod 4 = 0 \<and> (y mod 100 \<noteq> 0 \<or> y mod 400 = 0))"

definition DAYS_IN_MONTH :: "int list" where
  "DAYS_IN_MONTH = [-1, 31, 28, 31, 30, 31, 30, 31, 31, 30, 31, 30, 31]"

definition DAYS_BEFORE_MONTH :: "int list" where
  "DAYS_BEFORE_MONTH = [-1, 0, 31, 59, 90, 120, 151, 181, 212, 243, 273, 304, 334]"

definition days_in_month :: "int \<Rightarrow> int \<Rightarrow> int" where
  "days_in_month y m = (if m = 2 \<and> is_leap y then 29 else DAYS_IN_MONTH ! nat m)"

definition days_before_year :: "int \<Rightarrow> int" where
  "days_before_year y = (let y1 = y - 1 in y1 * 365 + y1 div 4 - y1 div 100 + y1 div 400)"

definition days_before_month :: "int \<Rightarrow> int \<Rightarrow> int" where
  "days_before_month y m = DAYS_BEFORE_MONTH ! nat m + (if m > 2 \<and> is_leap y then 1 else 0)"

definition ymd2ord :: "int \<Rightarrow> int \<Rightarrow> int \<Rightarrow> int" where
  "ymd2ord y m d = days_before_year y + days_before_month y m + d"

definition MAXORDINAL :: int where
  "MAXORDINAL = 3652059"

definition ord2ymd :: "int \<Rightarrow> int \<times> int \<times> int" where
  "ord2ymd n0 =
     (let n = n0 - 1;
          n400 = n div 146097; n = n mod 146097;
          y = n400 * 400 + 1;
          n100 = n div 36524; n = n mod 36524;
          n4 = n div 1461; n = n mod 1461;
          n1 = n div 365; n = n mod 365;
          y = y + (n100 * 100 + n4 * 4 + n1)
      in if n1 = 4 \<or> n100 = 4 then (y - 1, 12, 31)
         else
           let leapyear = (n1 = 3 \<and> (n4 \<noteq> 24 \<or> n100 = 3));
               m = (n + 50) div 32;
               preceding = DAYS_BEFORE_MONTH ! nat m + (if m > 2 \<and> leapyear then 1 else 0)
           in if preceding > n
              then let m = m - 1;
                       preceding = preceding
                         - (DAYS_IN_MONTH ! nat m + (if m = 2 \<and> leapyear then 1 else 0))
                   in (y, m, n - preceding + 1)
              else (y, m, n - preceding + 1))"

text \<open>The constructor \<open>datetime(year, month, day, hour, minute, second,
  microsecond)\<close>.\<close>

definition datetime_new ::
  "int \<Rightarrow> int \<Rightarrow> int \<Rightarrow> int \<Rightarrow> int \<Rightarrow> int \<Rightarrow> int \<Rightarrow> error + datetime" where
  "datetime_new y m d hh mm ss us =
     (if y < 1 \<or> 9999 < y then Inl (ValueError (''year '' @ str_int y @ '' is out of range''))
      else if m < 1 \<or> 12 < m then Inl (ValueError ''month must be in 1..12'')
      else if d < 1 \<or> days_in_month y m < d
        then Inl (ValueError ''day is out of range for month'')
      else if hh < 0 \<or> 23 < hh then Inl (ValueError ''hour must be in 0..23'')
      else if mm < 0 \<or> 59 < mm then Inl (ValueError ''minute must be in 0..59'')
      else if ss < 0 \<or> 59 < ss then Inl (ValueError ''second must be in 0..59'')
      else if us < 0 \<or> 999999 < us then Inl (ValueError ''microsecond must be in 0..999999'')
      else Inr \<lparr>year = y, month = m, day = d, hour = hh, minute = mm, second = ss,
                 microsecond = us\<rparr>)"

text \<open>\<open>dt.replace(year=y)\<close> builds a new \<open>datetime\<close> from the changed fields.\<close>

definition replace_year :: "datetime \<Rightarrow> int \<Rightarrow> error + datetime" where
  "replace_year dt y =
     datetime_new y (month dt) (day dt) (hour dt) (minute dt) (second dt) (microsecond dt)"

text \<open>\<open>a <= b\<close> on two \<open>datetime\<close> values compares their fields in order.\<close>

fun lex_le :: "int list \<Rightarrow> int list \<Rightarrow> bool" where
  "lex_le [] ys = True"
| "lex_le (x # xs) [] = False"
| "lex_le (x # xs) (y # ys) = (x < y \<or> (x = y \<and> lex_le xs ys))"

definition dt_fields :: "datetime \<Rightarrow> int list" where
  "dt_fields dt = [year dt, month dt, day dt, hour dt, minute dt, second dt, microsecond dt]"

definition dt_le :: "datetime \<Rightarrow> datetime \<Rightarrow> bool" where
  "dt_le a b = lex_le (dt_fields a) (dt_fields b)"

text \<open>
  \<open>timedelta(days=n)\<close>, as its number of days. The number is first converted to a C
  \<open>int\<close>, then held against the limit of the type.
\<close>

definition timedelta :: "int \<Rightarrow> error + int" where
  "timedelta n =
     (if n < - 2147483648 \<or> 2147483647 < n
      then Inl (OverflowError ''Python int too large to convert to C int'')
      else if \<bar>n\<bar> > 999999999
      then Inl (OverflowError (''days='' @ str_int n @ ''; must have magnitude <= 999999999''))
      else Inr n)"

text \<open>\<open>dt + delta\<close> for a \<open>delta\<close> of whole days: the time of day is kept.\<close>

definition dt_add :: "datetime \<Rightarrow> int \<Rightarrow> error + datetime" where
  "dt_add dt delta =
     (let n = ymd2ord (year dt) (month dt) (day dt) + delta
      in if 0 < n \<and> n \<le> MAXORDINAL
         then (case ord2ymd n of (y, m, d) \<Rightarrow> Inr (dt\<lparr>year := y, month := m,
           day := d\<rparr>))
         else Inl (OverflowError ''date value out of range''))"

subsection \<open>\<open>strptime(value, "%d.%m.%Y")\<close>\<close>

text \<open>
  \<open>strptime\<close> turns the format into the regular expression
  \<^verbatim>\<open>(?P<d>3[0-1]|[1-2]\d|0[1-9]|[1-9]| [1-9])\.(?P<m>1[0-2]|0[1-9]|[1-9])\.(?P<Y>\d\d\d\d)\<close>,
  takes its first match at the start of the text, refuses text left over, and builds the
  date from the three groups. The messages of its own errors are shortened here:
  \<open>Birthday\<close> replaces them.
\<close>

definition rx_d :: rx where
  "rx_d = Alt (Seq (Chars ''3'') (Chars ''01''))
         (Alt (Seq (Chars ''12'') digit)
         (Alt (Seq (Chars ''0'') (Chars ''123456789''))
         (Alt (Chars ''123456789'')
              (Seq (Chars '' '') (Chars ''123456789'')))))"

definition rx_m :: rx where
  "rx_m = Alt (Seq (Chars ''1'') (Chars ''012''))
         (Alt (Seq (Chars ''0'') (Chars ''123456789''))
              (Chars ''123456789''))"

definition rx_Y :: rx where
  "rx_Y = rep 4 digit"

definition captures :: "rx \<Rightarrow> string \<Rightarrow> (string \<times> string) list" where
  "captures r s = map (\<lambda>t. (take (length s - length t) s, t)) (rx_match r s)"

definition strptime_match :: "string \<Rightarrow> (string \<times> string \<times> string \<times> string) list" where
  "strptime_match s =
     [(d, m, y, r5). (d, r1) \<leftarrow> captures rx_d s,
       r2 \<leftarrow> rx_match (Chars ''.'') r1,
                     (m, r3) \<leftarrow> captures rx_m r2,
                       r4 \<leftarrow> rx_match (Chars ''.'') r3,
                     (y, r5) \<leftarrow> captures rx_Y r4]"

definition strptime :: "string \<Rightarrow> error + datetime" where
  "strptime s =
     (case strptime_match s of
        [] \<Rightarrow> Inl (ValueError ''time data does not match format'')
      | (d, m, y, rest) # _ \<Rightarrow>
          if rest \<noteq> [] then Inl (ValueError (''unconverted data remains: '' @ rest))
          else datetime_new (py_int y) (py_int m) (py_int d) 0 0 0 0)"

text \<open>
  \<open>strftime("%d.%m.%Y")\<close>. The day and the month are two digits. The year is handed to the
  platform: for a year below 1000 a C library that does not pad prints it as it is
  (\<open>pads = False\<close>), another prints four digits (\<open>pads = True\<close>).
\<close>

definition strftime :: "bool \<Rightarrow> datetime \<Rightarrow> string" where
  "strftime pads dt =
     pad2 (day dt) @ ''.'' @ pad2 (month dt) @ ''.'' @
     (if pads \<or> 1000 \<le> year dt then pad4 (year dt) else str_int (year dt))"

definition Birthday :: "string \<Rightarrow> error + datetime Field" where
  "Birthday v =
     (case strptime v of
        Inl (ValueError _) \<Rightarrow> Inl (ValueError ''Invalid date format. Use DD.MM.YYYY'')
      | Inl e \<Rightarrow> Inl e
      | Inr dt \<Rightarrow> Inr (Field dt))"

section \<open>Record\<close>

record Record =
  name :: "string Field"
  phones :: "string Field list"
  emails :: "string Field list"
  birthday :: "datetime Field option"

definition Record :: "string \<Rightarrow> Record" where
  "Record nm = \<lparr>name = Field nm, phones = [], emails = [], birthday = None\<rparr>"

text \<open>
  A method that changes its record returns what it raised or returned, and the record as
  it is at that moment. \<open>list.remove(x)\<close> takes out the first element that is \<open>x\<close>;
  \<open>find_phone\<close> returns the first phone with the value, so that is \<open>remove1\<close>.
\<close>

definition add_phone :: "string \<Rightarrow> Record \<Rightarrow> (error + unit) \<times> Record" where
  "add_phone phone r =
     (case Phone phone of
        Inl e \<Rightarrow> (Inl e, r)
      | Inr p \<Rightarrow> (Inr (), r\<lparr>phones := phones r @ [p]\<rparr>))"

definition find_phone :: "string \<Rightarrow> Record \<Rightarrow> string Field option" where
  "find_phone phone r = List.find (\<lambda>p. val p = phone) (phones r)"

definition remove_phone :: "string \<Rightarrow> Record \<Rightarrow> Record" where
  "remove_phone phone r =
     (case find_phone phone r of
        None \<Rightarrow> r
      | Some phone_to_remove \<Rightarrow> r\<lparr>phones := remove1 phone_to_remove (phones r)\<rparr>)"

definition edit_phone :: "string \<Rightarrow> string \<Rightarrow> Record \<Rightarrow> (error + unit) \<times> Record" where
  "edit_phone old_phone new_phone r =
     (case find_phone old_phone r of
        None \<Rightarrow> (Inr (), r)
      | Some phone_to_edit \<Rightarrow>
          add_phone new_phone (r\<lparr>phones := remove1 phone_to_edit (phones r)\<rparr>))"

definition add_email :: "string \<Rightarrow> Record \<Rightarrow> (error + unit) \<times> Record" where
  "add_email email r =
     (case Email email of
        Inl e \<Rightarrow> (Inl e, r)
      | Inr p \<Rightarrow> (Inr (), r\<lparr>emails := emails r @ [p]\<rparr>))"

definition find_email :: "string \<Rightarrow> Record \<Rightarrow> string Field option" where
  "find_email email r = List.find (\<lambda>e. val e = email) (emails r)"

definition remove_email :: "string \<Rightarrow> Record \<Rightarrow> Record" where
  "remove_email email r =
     (case find_email email r of
        None \<Rightarrow> r
      | Some email_to_remove \<Rightarrow> r\<lparr>emails := remove1 email_to_remove (emails r)\<rparr>)"

definition edit_email :: "string \<Rightarrow> string \<Rightarrow> Record \<Rightarrow> (error + unit) \<times> Record" where
  "edit_email old_email new_email r =
     (case find_email old_email r of
        None \<Rightarrow> (Inr (), r)
      | Some email_to_edit \<Rightarrow>
          add_email new_email (r\<lparr>emails := remove1 email_to_edit (emails r)\<rparr>))"

definition add_birthday :: "string \<Rightarrow> Record \<Rightarrow> (error + unit) \<times> Record" where
  "add_birthday b r =
     (case Birthday b of
        Inl e \<Rightarrow> (Inl e, r)
      | Inr bd \<Rightarrow> (Inr (), r\<lparr>birthday := Some bd\<rparr>))"

fun join :: "string \<Rightarrow> string list \<Rightarrow> string" where
  "join sep [] = []"
| "join sep [x] = x"
| "join sep (x # y # ys) = x @ sep @ join sep (y # ys)"

definition Record_str :: "bool \<Rightarrow> Record \<Rightarrow> string" where
  "Record_str pads r =
     ''Contact name: '' @ val (name r) @
     '', phones: '' @ join ''; '' (map val (phones r)) @
     '', emails: '' @ join ''; '' (map val (emails r)) @
     '', birthday: '' @
       (case birthday r of None \<Rightarrow> ''N/A'' | Some b \<Rightarrow> strftime pads (val b))"

section \<open>AddressBook\<close>

text \<open>
  The dictionary \<open>data\<close>: its entries in insertion order. Storing under a key that is
  there replaces the value where it stands; a new key goes to the end.
\<close>

type_synonym AddressBook = "(string \<times> Record) list"

fun dict_set :: "'k \<Rightarrow> 'v \<Rightarrow> ('k \<times> 'v) list \<Rightarrow> ('k \<times> 'v) list" where
  "dict_set k v [] = [(k, v)]"
| "dict_set k v ((k', v') # d) =
     (if k' = k then (k, v) # d else (k', v') # dict_set k v d)"

definition dict_del :: "'k \<Rightarrow> ('k \<times> 'v) list \<Rightarrow> ('k \<times> 'v) list" where
  "dict_del k d = filter (\<lambda>e. fst e \<noteq> k) d"

definition add_record :: "Record \<Rightarrow> AddressBook \<Rightarrow> AddressBook" where
  "add_record record book = dict_set (val (name record)) record book"

definition find :: "AddressBook \<Rightarrow> string \<Rightarrow> Record option" where
  "find book nm = map_of book nm"

definition delete :: "string \<Rightarrow> AddressBook \<Rightarrow> AddressBook" where
  "delete nm book = (if nm \<in> set (map fst book) then dict_del nm book else book)"

text \<open>
  \<open>get_upcoming_birthdays\<close>: \<open>today\<close> is what \<open>datetime.now()\<close> returned, the date and the
  time of day. The chained comparison computes \<open>today + timedelta(days=days)\<close> only when
  \<open>today <= next_birthday\<close> holds.
\<close>

fun upcoming_loop ::
  "datetime \<Rightarrow> int \<Rightarrow> Record list \<Rightarrow> Record list \<Rightarrow> error + Record list" where
  "upcoming_loop today days [] upcoming_birthdays = Inr upcoming_birthdays"
| "upcoming_loop today days (record # rest) upcoming_birthdays =
     (case birthday record of
        None \<Rightarrow> upcoming_loop today days rest upcoming_birthdays
      | Some b \<Rightarrow>
          (case replace_year (val b) (year today) of
             Inl e \<Rightarrow> Inl e
           | Inr next_birthday \<Rightarrow>
               if dt_le today next_birthday
               then (case timedelta days of
                       Inl e \<Rightarrow> Inl e
                     | Inr delta \<Rightarrow>
                         (case dt_add today delta of
                            Inl e \<Rightarrow> Inl e
                          | Inr limit \<Rightarrow>
                              if dt_le next_birthday limit
                              then upcoming_loop today days rest (upcoming_birthdays @ [record])
                              else upcoming_loop today days rest upcoming_birthdays))
               else upcoming_loop today days rest upcoming_birthdays))"

definition get_upcoming_birthdays :: "datetime \<Rightarrow> int \<Rightarrow> AddressBook \<Rightarrow> error + Record list" where
  "get_upcoming_birthdays today days book = upcoming_loop today days (map snd book) []"

section \<open>Command handlers\<close>

text \<open>
  A handler returns its message, or the exception that leaves it, and the book as it is
  then. \<open>input_error\<close> turns a \<open>ValueError\<close> into the returned message \<open>str(e)\<close>; any other
  exception goes on to the caller.
\<close>

type_synonym handler = "string list \<Rightarrow> AddressBook \<Rightarrow> (error + string) \<times> AddressBook"

definition input_error :: "handler \<Rightarrow> handler" where
  "input_error func args book =
     (case func args book of
        (Inl (ValueError msg), book') \<Rightarrow> (Inr msg, book')
      | res \<Rightarrow> res)"

text \<open>The errors of a failed unpacking and of \<open>args[0]\<close> on an empty list.\<close>

definition not_enough_at_least :: "nat \<Rightarrow> nat \<Rightarrow> error" where
  "not_enough_at_least n got =
     ValueError (''not enough values to unpack (expected at least '' @ str_nat n @
                 '', got '' @ str_nat got @ '')'')"

definition not_enough :: "nat \<Rightarrow> nat \<Rightarrow> error" where
  "not_enough n got =
     ValueError (''not enough values to unpack (expected '' @ str_nat n @
                 '', got '' @ str_nat got @ '')'')"

definition too_many :: "nat \<Rightarrow> error" where
  "too_many n = ValueError (''too many values to unpack (expected '' @ str_nat n @ '')'')"

definition index_error :: error where
  "index_error = IndexError ''list index out of range''"

text \<open>
  The record a handler found is the object the book holds under the name: what a method
  does to it shows in the book, also when the method raises.
\<close>

definition method_result ::
  "string \<Rightarrow> (error + unit) \<times> Record \<Rightarrow> string \<Rightarrow> AddressBook
    \<Rightarrow> (error + string) \<times> AddressBook" where
  "method_result nm res message book =
     (case res of
        (Inl e, record) \<Rightarrow> (Inl e, dict_set nm record book)
      | (Inr u, record) \<Rightarrow> (Inr message, dict_set nm record book))"

definition add_contact_body :: handler where
  "add_contact_body args book =
     (case args of
        nm # phone # rest \<Rightarrow>
          (case find book nm of
             None \<Rightarrow>
               (let record = Record nm; book1 = add_record record book
                in if phone \<noteq> []
                   then method_result nm (add_phone phone record) ''Contact added.'' book1
                   else (Inr ''Contact added.'', book1))
           | Some record \<Rightarrow>
               if phone \<noteq> []
               then method_result nm (add_phone phone record) ''Contact updated.'' book
               else (Inr ''Contact updated.'', book))
      | _ \<Rightarrow> (Inl (not_enough_at_least 2 (length args)), book))"

definition add_contact :: handler where
  "add_contact = input_error add_contact_body"

definition change_phone_body :: handler where
  "change_phone_body args book =
     (case args of
        [nm, old_phone, new_phone] \<Rightarrow>
          (case find book nm of
             Some record \<Rightarrow>
               method_result nm (edit_phone old_phone new_phone record)
                 (''Phone number updated for contact '' @ nm @ ''.'') book
           | None \<Rightarrow> (Inr (''Contact '' @ nm @ '' not found.''), book))
      | _ \<Rightarrow>
          (Inl (if length args < 3 then not_enough 3 (length args) else too_many 3), book))"

definition change_phone :: handler where
  "change_phone = input_error change_phone_body"

definition show_phone_body :: handler where
  "show_phone_body args book =
     (case args of
        [] \<Rightarrow> (Inl index_error, book)
      | nm # rest \<Rightarrow>
          (case find book nm of
             Some record \<Rightarrow>
               (Inr (nm @ [CHR 0x27] @ ''s phones: '' @ join '', '' (map val (phones record))),
                 book)
           | None \<Rightarrow> (Inr (''Contact '' @ nm @ '' not found.''), book)))"

definition show_phone :: handler where
  "show_phone = input_error show_phone_body"

definition list_contacts_body :: "bool \<Rightarrow> handler" where
  "list_contacts_body pads args book =
     (if book = [] then (Inr ''Address book is empty.'', book)
      else (Inr (join [CHR 0x0A]
                  (''Contacts in address book:'' # map (\<lambda>e. Record_str pads (snd e)) book)),
            book))"

definition list_contacts :: "bool \<Rightarrow> handler" where
  "list_contacts pads = input_error (list_contacts_body pads)"

definition add_email_body :: handler where
  "add_email_body args book =
     (case args of
        nm # email # rest \<Rightarrow>
          (case find book nm of
             Some record \<Rightarrow>
               method_result nm (add_email email record)
                 (''Email '' @ email @ '' added for contact '' @ nm @ ''.'') book
           | None \<Rightarrow> (Inr (''Contact '' @ nm @ '' not found.''), book))
      | _ \<Rightarrow> (Inl (not_enough_at_least 2 (length args)), book))"

definition add_email_handler :: handler where
  "add_email_handler = input_error add_email_body"

definition change_email_body :: handler where
  "change_email_body args book =
     (case args of
        [nm, old_email, new_email] \<Rightarrow>
          (case find book nm of
             Some record \<Rightarrow>
               method_result nm (edit_email old_email new_email record)
                 (''Email updated for contact '' @ nm @ ''.'') book
           | None \<Rightarrow> (Inr (''Contact '' @ nm @ '' not found.''), book))
      | _ \<Rightarrow>
          (Inl (if length args < 3 then not_enough 3 (length args) else too_many 3), book))"

definition change_email :: handler where
  "change_email = input_error change_email_body"

definition show_email_body :: handler where
  "show_email_body args book =
     (case args of
        [] \<Rightarrow> (Inl index_error, book)
      | nm # rest \<Rightarrow>
          (case find book nm of
             Some record \<Rightarrow>
               (Inr (nm @ [CHR 0x27] @ ''s emails: '' @ join '', '' (map val (emails record))),
                 book)
           | None \<Rightarrow> (Inr (''Contact '' @ nm @ '' not found.''), book)))"

definition show_email :: handler where
  "show_email = input_error show_email_body"

definition add_birthday_body :: handler where
  "add_birthday_body args book =
     (case args of
        [nm, b] \<Rightarrow>
          (case find book nm of
             Some record \<Rightarrow>
               method_result nm (add_birthday b record)
                 (''Birthday added for contact '' @ nm @ ''.'') book
           | None \<Rightarrow> (Inr (''Contact '' @ nm @ '' not found.''), book))
      | _ \<Rightarrow>
          (Inl (if length args < 2 then not_enough 2 (length args) else too_many 2), book))"

definition add_birthday_handler :: handler where
  "add_birthday_handler = input_error add_birthday_body"

definition show_birthday_body :: "bool \<Rightarrow> handler" where
  "show_birthday_body pads args book =
     (case args of
        [] \<Rightarrow> (Inl index_error, book)
      | nm # rest \<Rightarrow>
          (case find book nm of
             Some record \<Rightarrow>
               (case birthday record of
                  Some b \<Rightarrow>
                    (Inr (nm @ [CHR 0x27] @ ''s birthday is on '' @ strftime pads (val b) @ ''.''),
                     book)
                | None \<Rightarrow> (Inr (''Birthday not set for contact '' @ nm @ ''.''),
                  book))
           | None \<Rightarrow> (Inr (''Contact '' @ nm @ '' not found.''), book)))"

definition show_birthday :: "bool \<Rightarrow> handler" where
  "show_birthday pads = input_error (show_birthday_body pads)"

section \<open>Notions the properties are stated with\<close>

text \<open>A decimal digit, by its character code.\<close>

definition is_decimal_digit :: "char \<Rightarrow> bool" where
  "is_decimal_digit c = (48 \<le> (of_char c :: nat) \<and> (of_char c :: nat) \<le> 57)"

text \<open>The books one gets from the empty book by \<open>add_record\<close> and \<open>delete\<close>.\<close>

inductive reachable :: "AddressBook \<Rightarrow> bool" where
  reachable_empty: "reachable []"
| reachable_add: "reachable book \<Longrightarrow> reachable (add_record record book)"
| reachable_delete: "reachable book \<Longrightarrow> reachable (delete nm book)"

definition keys_are_names :: "AddressBook \<Rightarrow> bool" where
  "keys_are_names book = list_all (\<lambda>e. fst e = val (name (snd e))) book"

text \<open>
  Dates and times within the ranges of \<open>datetime\<close>; what \<open>Birthday\<close> stores is a date at
  midnight.
\<close>

definition is_date :: "datetime \<Rightarrow> bool" where
  "is_date dt =
     (1 \<le> year dt \<and> year dt \<le> 9999 \<and> 1 \<le> month dt \<and> month dt \<le> 12 \<and>
      1 \<le> day dt \<and> day dt \<le> days_in_month (year dt) (month dt))"

definition is_time :: "datetime \<Rightarrow> bool" where
  "is_time dt =
     (0 \<le> hour dt \<and> hour dt \<le> 23 \<and> 0 \<le> minute dt \<and> minute dt \<le> 59 \<and>
      0 \<le> second dt \<and> second dt \<le> 59 \<and> 0 \<le> microsecond dt \<and> microsecond dt \<le> 999999)"

definition midnight :: "datetime \<Rightarrow> bool" where
  "midnight dt = (hour dt = 0 \<and> minute dt = 0 \<and> second dt = 0 \<and> microsecond dt = 0)"

definition stored_birthday :: "datetime \<Rightarrow> bool" where
  "stored_birthday dt = (is_date dt \<and> midnight dt)"

text \<open>A birthday's month and day in the year of \<open>today\<close>,
  and whether that day exists.\<close>

definition this_year :: "datetime \<Rightarrow> datetime \<Rightarrow> datetime" where
  "this_year today b = b\<lparr>year := year today\<rparr>"

definition leap_day :: "datetime \<Rightarrow> bool" where
  "leap_day b = (month b = 2 \<and> day b = 29)"

definition in_window :: "datetime \<Rightarrow> datetime \<Rightarrow> Record \<Rightarrow> bool" where
  "in_window today limit r =
     (case birthday r of
        None \<Rightarrow> False
      | Some b \<Rightarrow>
          dt_le today (this_year today (val b)) \<and> dt_le (this_year today (val b)) limit)"

text \<open>
  The texts of a regular expression without repetition, in the order the matcher tries
  them.
\<close>

fun lang_list :: "rx \<Rightarrow> string list" where
  "lang_list Eps = [[]]"
| "lang_list (Chars cs) = map (\<lambda>c. [c]) cs"
| "lang_list (Seq a b) = [u @ v. u \<leftarrow> lang_list a, v \<leftarrow> lang_list b]"
| "lang_list (Alt a b) = lang_list a @ lang_list b"
| "lang_list (NotChars cs) = []"
| "lang_list (Plus a) = []"

fun finite_rx :: "rx \<Rightarrow> bool" where
  "finite_rx Eps = True"
| "finite_rx (Chars cs) = True"
| "finite_rx (Seq a b) = (finite_rx a \<and> finite_rx b)"
| "finite_rx (Alt a b) = (finite_rx a \<and> finite_rx b)"
| "finite_rx (NotChars cs) = False"
| "finite_rx (Plus a) = False"

text \<open>
  The spellings of a date that \<open>strptime\<close> reads with \<open>%d.%m.%Y\<close>: the day in one or two
  digits (a day below ten also with a leading zero or a leading blank), the month in one
  or two digits (a month below ten also with a leading zero), the year in four digits.
\<close>

definition day_texts :: "int \<Rightarrow> string list" where
  "day_texts d =
     (if d < 10 then [[digit_char (nat d)], [CHR ''0'', digit_char (nat d)],
                      [CHR '' '', digit_char (nat d)]]
      else [pad2 d])"

definition month_texts :: "int \<Rightarrow> string list" where
  "month_texts m =
     (if m < 10 then [[digit_char (nat m)], [CHR ''0'', digit_char (nat m)]] else [pad2 m])"

definition birthday_texts :: "datetime \<Rightarrow> string list" where
  "birthday_texts dt =
     [d @ ''.'' @ m @ ''.'' @ pad4 (year dt). d \<leftarrow> day_texts (day dt),
       m \<leftarrow> month_texts (month dt)]"



text \<open>
  Day \<open>e\<close> of a year, counted from 0, lies in month \<open>m\<close>, before which \<open>p\<close> days of
  the year have passed.
\<close>

definition month_start :: "bool \<Rightarrow> int \<Rightarrow> int \<Rightarrow> int \<Rightarrow> bool" where
  "month_start leap e m p =
     (1 \<le> m \<and> m \<le> 12 \<and>
      p = DAYS_BEFORE_MONTH ! nat m + (if m > 2 \<and> leap then 1 else 0) \<and>
      p \<le> e \<and> e - p < (if m = 2 \<and> leap then 29 else DAYS_IN_MONTH ! nat m))"

text \<open>
  \<open>dt'\<close> is the date \<open>n\<close> days after that of \<open>dt\<close>, counted in days since
  1 January of year 1, at the time of day of \<open>dt\<close>.
\<close>

definition days_after :: "datetime \<Rightarrow> int \<Rightarrow> datetime \<Rightarrow> bool" where
  "days_after dt n dt' =
     (is_date dt' \<and>
      ymd2ord (year dt') (month dt') (day dt') = ymd2ord (year dt) (month dt) (day dt) + n \<and>
      hour dt' = hour dt \<and> minute dt' = minute dt \<and> second dt' = second dt \<and>
      microsecond dt' = microsecond dt)"

section \<open>Properties\<close>

subsection \<open>Phone numbers\<close>

lemma digit_set_iff: "c \<in> set ''0123456789'' \<longleftrightarrow> is_decimal_digit c"
proof
  assume "c \<in> set ''0123456789''"
  then show "is_decimal_digit c" by (auto simp: is_decimal_digit_def)
next
  assume a: "is_decimal_digit c"
  define n where "n = (of_char c :: nat)"
  have c: "c = char_of n" by (simp add: n_def)
  from a have "n = 48 \<or> n = 49 \<or> n = 50 \<or> n = 51 \<or> n = 52 \<or> n = 53 \<or> n = 54 \<or> n = 55
      \<or> n = 56 \<or> n = 57"
    unfolding is_decimal_digit_def n_def[symmetric] by arith
  then show "c \<in> set ''0123456789''" unfolding c
    by (elim disjE; simp add: char_of_def bit_0)
qed

lemma rx_match_digit:
  "rx_match digit s = (case s of [] \<Rightarrow> [] | c # t \<Rightarrow> if is_decimal_digit c then [t] else [])"
  unfolding digit_def using digit_set_iff by (cases s) (simp_all del: set_simps)

lemma rx_match_rep_digit:
  "rx_match (rep n digit) s =
     (if n \<le> length s \<and> list_all is_decimal_digit (take n s) then [drop n s] else [])"
proof (induction n arbitrary: s)
  case 0
  then show ?case by simp
next
  case (Suc n)
  show ?case
  proof (cases s)
    case Nil
    then show ?thesis by (simp add: rx_match_digit)
  next
    case (Cons c t)
    then show ?thesis by (cases "is_decimal_digit c") (simp_all add: rx_match_digit Suc)
  qed
qed


subsection \<open>Scenarios\<close>

text \<open>
  C7. From the empty book, \<open>add John 1234567890\<close> answers "Contact added.", then
  \<open>add John 0987654321\<close> answers "Contact updated." and the record holds both phones in
  that order, then \<open>phone John\<close> answers the line with both numbers joined by a comma and
  a blank.
\<close>

theorem add_twice_then_phone:
  "(let r1 = add_contact [''John'', ''1234567890''] [];
        r2 = add_contact [''John'', ''0987654321''] (snd r1);
        r3 = show_phone [''John''] (snd r2)
    in fst r1 = Inr ''Contact added.'' \<and>
       fst r2 = Inr ''Contact updated.'' \<and>
       map (\<lambda>e. (fst e, map val (phones (snd e)))) (snd r2)
         = [(''John'', [''1234567890'', ''0987654321''])] \<and>
       fst r3 = Inr (''John'' @ [CHR 0x27] @ ''s phones: 1234567890, 0987654321'') \<and>
       snd r3 = snd r2)"
  by code_simp

subsection \<open>Phones and emails of a record\<close>

lemma find_val_first:
  "v \<notin> set (map val xs) \<Longrightarrow> val p = v \<Longrightarrow> List.find (\<lambda>p. val p = v) (xs @ p # ys) = Some p"
  by (induction xs) auto

lemma remove1_val_first: "val p \<notin> set (map val xs) \<Longrightarrow> remove1 p (xs @ p # ys) = xs @ ys"
  by (induction xs) auto

lemma find_phone_first:
  assumes "phones r = xs @ p # ys" "val p = v" "v \<notin> set (map val xs)"
  shows "find_phone v r = Some p" and "remove1 p (phones r) = xs @ ys"
  using assms by (simp_all add: find_phone_def find_val_first remove1_val_first)

lemma find_phone_absent: "v \<notin> set (map val (phones r)) \<Longrightarrow> find_phone v r = None"
  unfolding find_phone_def by (auto simp: find_None_iff)

lemma find_email_first:
  assumes "emails r = xs @ p # ys" "val p = v" "v \<notin> set (map val xs)"
  shows "find_email v r = Some p" and "remove1 p (emails r) = xs @ ys"
  using assms by (simp_all add: find_email_def find_val_first remove1_val_first)

lemma find_email_absent: "v \<notin> set (map val (emails r)) \<Longrightarrow> find_email v r = None"
  unfolding find_email_def by (auto simp: find_None_iff)

text \<open>
  C6. \<open>remove_phone(value)\<close> takes out the first phone whose value is \<open>value\<close> and nothing
  else; when no phone has the value the record is unchanged, also after a second call.
\<close>

theorem remove_phone_first_match:
  "(phones r = xs @ p # ys \<and> val p = v \<and> v \<notin> set (map val xs)
      \<longrightarrow> remove_phone v r = r\<lparr>phones := xs @ ys\<rparr>) \<and>
   (v \<notin> set (map val (phones r))
      \<longrightarrow> remove_phone v r = r \<and> remove_phone v (remove_phone v r) = r)"
proof (intro conjI impI)
  assume "phones r = xs @ p # ys \<and> val p = v \<and> v \<notin> set (map val xs)"
  then show "remove_phone v r = r\<lparr>phones := xs @ ys\<rparr>"
    using find_phone_first [of r xs p ys v] by (simp add: remove_phone_def)
next
  assume "v \<notin> set (map val (phones r))"
  then show "remove_phone v r = r" "remove_phone v (remove_phone v r) = r"
    by (simp_all add: remove_phone_def find_phone_absent)
qed

theorem remove_phone_first_match_witness:
  "remove_phone ''1111111111''
     \<lparr>name = Field ''Ann'', phones = [Field ''0000000000'', Field ''1111111111'',
          Field ''2222222222'', Field ''1111111111''], emails = [], birthday = None\<rparr>
   = \<lparr>name = Field ''Ann'', phones = [Field ''0000000000'', Field ''2222222222'',
          Field ''1111111111''], emails = [], birthday = None\<rparr> \<and>
   remove_phone ''3333333333'' (remove_phone ''3333333333''
     \<lparr>name = Field ''Ann'', phones = [Field ''0000000000''], emails = [],
       birthday = None\<rparr>)
   = \<lparr>name = Field ''Ann'', phones = [Field ''0000000000''], emails = [],
     birthday = None\<rparr>"
  using remove_phone_first_match [of
      "\<lparr>name = Field ''Ann'', phones = [Field ''0000000000'', Field ''1111111111'',
          Field ''2222222222'', Field ''1111111111''], emails = [], birthday = None\<rparr>"
      "[Field ''0000000000'']" "Field ''1111111111''"
      "[Field ''2222222222'', Field ''1111111111'']" "''1111111111''"]
    remove_phone_first_match [of
      "\<lparr>name = Field ''Ann'', phones = [Field ''0000000000''], emails = [],
        birthday = None\<rparr>"
      _ _ _ "''3333333333''"]
  by simp

text \<open>
  C4. \<open>edit_phone(old, new)\<close> leaves the record as it is when no phone has the value
  \<open>old\<close>. Otherwise the first such phone is taken out; then a valid \<open>new\<close> is appended, and
  an invalid \<open>new\<close> raises the \<open>ValueError\<close> of \<open>Phone\<close> with the old phone already gone.
  \<open>edit_email\<close> does the same with the emails.
\<close>

theorem edit_phone_not_atomic:
  "(old \<notin> set (map val (phones r)) \<longrightarrow> edit_phone old new r = (Inr (),
    r)) \<and>
   (phones r = xs @ p # ys \<and> val p = old \<and> old \<notin> set (map val xs) \<longrightarrow>
      edit_phone old new r =
        (if Phone_validate new then (Inr (), r\<lparr>phones := xs @ ys @ [Field new]\<rparr>)
         else (Inl (ValueError ''Invalid phone number format. It should be 10 digits.''),
               r\<lparr>phones := xs @ ys\<rparr>))) \<and>
   (old' \<notin> set (map val (emails r)) \<longrightarrow> edit_email old' new' r = (Inr (),
     r)) \<and>
   (emails r = us @ q # vs \<and> val q = old' \<and> old' \<notin> set (map val us) \<longrightarrow>
      edit_email old' new' r =
        (if Email_validate new' then (Inr (), r\<lparr>emails := us @ vs @ [Field new']\<rparr>)
         else (Inl (ValueError ''Invalid email format.''),
           r\<lparr>emails := us @ vs\<rparr>)))"
proof (intro conjI impI)
  assume "old \<notin> set (map val (phones r))"
  then show "edit_phone old new r = (Inr (), r)"
    by (simp add: edit_phone_def find_phone_absent)
next
  assume "phones r = xs @ p # ys \<and> val p = old \<and> old \<notin> set (map val xs)"
  then show "edit_phone old new r =
        (if Phone_validate new then (Inr (), r\<lparr>phones := xs @ ys @ [Field new]\<rparr>)
         else (Inl (ValueError ''Invalid phone number format. It should be 10 digits.''),
               r\<lparr>phones := xs @ ys\<rparr>))"
    using find_phone_first [of r xs p ys old]
    by (simp add: edit_phone_def add_phone_def Phone_def)
next
  assume "old' \<notin> set (map val (emails r))"
  then show "edit_email old' new' r = (Inr (), r)"
    by (simp add: edit_email_def find_email_absent)
next
  assume "emails r = us @ q # vs \<and> val q = old' \<and> old' \<notin> set (map val us)"
  then show "edit_email old' new' r =
        (if Email_validate new' then (Inr (), r\<lparr>emails := us @ vs @ [Field new']\<rparr>)
         else (Inl (ValueError ''Invalid email format.''), r\<lparr>emails := us @ vs\<rparr>))"
    using find_email_first [of r us q vs old']
    by (simp add: edit_email_def add_email_def Email_def)
qed

theorem edit_phone_not_atomic_witness:
  "edit_phone ''1111111111'' ''12''
     \<lparr>name = Field ''Ann'', phones = [Field ''0000000000'', Field ''1111111111''],
        emails = [Field ''a@b.c'', Field ''d@e.f''], birthday = None\<rparr>
   = (Inl (ValueError ''Invalid phone number format. It should be 10 digits.''),
      \<lparr>name = Field ''Ann'', phones = [Field ''0000000000''],
        emails = [Field ''a@b.c'', Field ''d@e.f''], birthday = None\<rparr>) \<and>
   edit_phone ''7777777777'' ''12''
     \<lparr>name = Field ''Ann'', phones = [Field ''0000000000'', Field ''1111111111''],
        emails = [Field ''a@b.c'', Field ''d@e.f''], birthday = None\<rparr>
   = (Inr (),
      \<lparr>name = Field ''Ann'', phones = [Field ''0000000000'', Field ''1111111111''],
        emails = [Field ''a@b.c'', Field ''d@e.f''], birthday = None\<rparr>) \<and>
   edit_email ''a@b.c'' ''nobody''
     \<lparr>name = Field ''Ann'', phones = [Field ''0000000000'', Field ''1111111111''],
        emails = [Field ''a@b.c'', Field ''d@e.f''], birthday = None\<rparr>
   = (Inl (ValueError ''Invalid email format.''),
      \<lparr>name = Field ''Ann'', phones = [Field ''0000000000'', Field ''1111111111''],
        emails = [Field ''d@e.f''], birthday = None\<rparr>) \<and>
   edit_email ''x@y.z'' ''nobody''
     \<lparr>name = Field ''Ann'', phones = [Field ''0000000000'', Field ''1111111111''],
        emails = [Field ''a@b.c'', Field ''d@e.f''], birthday = None\<rparr>
   = (Inr (),
      \<lparr>name = Field ''Ann'', phones = [Field ''0000000000'', Field ''1111111111''],
        emails = [Field ''a@b.c'', Field ''d@e.f''], birthday = None\<rparr>)"
proof -
  have p: "\<not> Phone_validate ''12''" by code_simp
  have e: "\<not> Email_validate ''nobody''" by code_simp
  show ?thesis
    using
      edit_phone_not_atomic [where
        r = "\<lparr>name = Field ''Ann'', phones = [Field ''0000000000'',
          Field ''1111111111''],
               emails = [Field ''a@b.c'', Field ''d@e.f''], birthday = None\<rparr>"
        and old = "''1111111111''" and new = "''12''" and xs = "[Field ''0000000000'']"
        and p = "Field ''1111111111''" and ys = "[]"
        and old' = "''a@b.c''" and new' = "''nobody''" and us = "[]" and q = "Field ''a@b.c''"
        and vs = "[Field ''d@e.f'']"]
      edit_phone_not_atomic [where
        r = "\<lparr>name = Field ''Ann'', phones = [Field ''0000000000'',
          Field ''1111111111''],
               emails = [Field ''a@b.c'', Field ''d@e.f''], birthday = None\<rparr>"
        and old = "''7777777777''" and new = "''12''"
        and old' = "''x@y.z''" and new' = "''nobody''"]
      p e
    by simp
qed

subsection \<open>The keys of the book\<close>

lemma dict_set_keys:
  "map fst (dict_set k v d) = (if k \<in> set (map fst d) then map fst d else map fst d @ [k])"
  by (induction d) force+

lemma dict_set_set: "set (dict_set k v d) \<subseteq> insert (k, v) (set d)"
  by (induction d) (auto split: if_splits)

lemma dict_set_map_of: "map_of (dict_set k v d) k = Some v"
  by (induction d) auto

lemma reachable_inv:
  "reachable book \<Longrightarrow> keys_are_names book \<and> distinct (map fst book)"
proof (induction rule: reachable.induct)
  case reachable_empty
  then show ?case by (simp add: keys_are_names_def)
next
  case (reachable_add book r)
  have "keys_are_names (add_record r book)"
    using reachable_add.IH dict_set_set [of "val (name r)" r book]
    unfolding keys_are_names_def add_record_def list_all_iff by auto
  moreover have "distinct (map fst (add_record r book))"
    using reachable_add.IH by (simp add: add_record_def dict_set_keys)
  ultimately show ?case by simp
next
  case (reachable_delete book nm)
  then show ?case
    by (auto simp: delete_def dict_del_def keys_are_names_def list_all_iff distinct_map_filter)
qed

text \<open>
  C10. In every book reached from the empty one by \<open>add_record\<close> and \<open>delete\<close> each key is
  the name of its record and no key stands twice; \<open>add_record\<close> stores the record under
  its name, and when the name is there already the keys stay as they are: the record
  replaces the stored one.
\<close>

theorem keys_equal_names:
  "reachable book \<Longrightarrow>
     keys_are_names book \<and> distinct (map fst book) \<and>
     find (add_record record book) (val (name record)) = Some record \<and>
     map fst (add_record record book) =
       (if val (name record) \<in> set (map fst book) then map fst book
        else map fst book @ [val (name record)])"
  by (simp add: reachable_inv add_record_def find_def dict_set_map_of dict_set_keys)


theorem keys_equal_names_witness:
  "reachable (delete ''Bob'' (add_record (Record ''Bob'') (add_record (Record ''Ann'') []))) \<and>
   delete ''Bob'' (add_record (Record ''Bob'') (add_record (Record ''Ann'') []))
     = [(''Ann'', Record ''Ann'')] \<and>
   keys_are_names [(''Ann'', Record ''Ann'')] \<and>
   find (add_record ((Record ''Ann'')\<lparr>phones := [Field ''0000000000'']\<rparr>)
          [(''Ann'', Record ''Ann'')]) ''Ann''
     = Some ((Record ''Ann'')\<lparr>phones := [Field ''0000000000'']\<rparr>) \<and>
   map fst (add_record ((Record ''Ann'')\<lparr>phones := [Field ''0000000000'']\<rparr>)
          [(''Ann'', Record ''Ann'')]) = [''Ann'']"
proof -
  have r: "reachable (delete ''Bob'' (add_record (Record ''Bob'') (add_record (Record ''Ann'') [])))"
    by (intro reachable.intros)
  have d: "delete ''Bob'' (add_record (Record ''Bob'') (add_record (Record ''Ann'') []))
     = [(''Ann'', Record ''Ann'')]"
    by (simp add: delete_def dict_del_def add_record_def Record_def)
  show ?thesis
    using r d keys_equal_names [OF r,
      of "(Record ''Ann'')\<lparr>phones := [Field ''0000000000'']\<rparr>"]
    by (simp add: Record_def)
qed

subsection \<open>Handlers given too few arguments\<close>

lemma short_args:
  "length (args :: string list) < 2 \<Longrightarrow> args = [] \<or> (\<exists>a. args = [a])"
  "length args < 3 \<Longrightarrow> args = [] \<or> (\<exists>a. args = [a]) \<or> (\<exists>a b. args = [a, b])"
  by (cases args; cases "tl args"; cases "tl (tl args)"; auto)+

text \<open>
  C5, as amended. The handlers that read \<open>args[0]\<close> (\<open>phone\<close>, \<open>show-email\<close>,
  \<open>show-birthday\<close>) end in an \<open>IndexError\<close> that \<open>input_error\<close> lets through when they get
  no argument. The handlers that unpack their arguments (\<open>add\<close>, \<open>add-email\<close>,
  \<open>add-birthday\<close>, \<open>change\<close>, \<open>change-email\<close>) do not crash on too few: the unpacking raises
  a \<open>ValueError\<close>, \<open>input_error\<close> catches it, and the handler returns its text as the
  message, the book unchanged.
\<close>

theorem missing_arguments:
  "show_phone [] book = (Inl (IndexError ''list index out of range''), book) \<and>
   show_email [] book = (Inl (IndexError ''list index out of range''), book) \<and>
   show_birthday pads [] book = (Inl (IndexError ''list index out of range''), book) \<and>
   (length args < 2 \<longrightarrow>
      add_contact args book =
        (Inr (''not enough values to unpack (expected at least 2, got '' @
              str_nat (length args) @ '')''), book) \<and>
      add_email_handler args book =
        (Inr (''not enough values to unpack (expected at least 2, got '' @
              str_nat (length args) @ '')''), book) \<and>
      add_birthday_handler args book =
        (Inr (''not enough values to unpack (expected 2, got '' @
              str_nat (length args) @ '')''), book)) \<and>
   (length args < 3 \<longrightarrow>
      change_phone args book =
        (Inr (''not enough values to unpack (expected 3, got '' @
              str_nat (length args) @ '')''), book) \<and>
      change_email args book =
        (Inr (''not enough values to unpack (expected 3, got '' @
              str_nat (length args) @ '')''), book))"
proof (intro conjI impI)
  show "show_phone [] book = (Inl (IndexError ''list index out of range''), book)"
    by (simp add: show_phone_def show_phone_body_def input_error_def index_error_def)
  show "show_email [] book = (Inl (IndexError ''list index out of range''), book)"
    by (simp add: show_email_def show_email_body_def input_error_def index_error_def)
  show "show_birthday pads [] book = (Inl (IndexError ''list index out of range''), book)"
    by (simp add: show_birthday_def show_birthday_body_def input_error_def index_error_def)
next
  assume a: "length args < 2"
  have two: "str_nat 2 = ''2''" by code_simp
  from short_args(1) [OF a]
  show "add_contact args book =
        (Inr (''not enough values to unpack (expected at least 2, got '' @
              str_nat (length args) @ '')''), book)"
    by (auto simp: add_contact_def add_contact_body_def input_error_def not_enough_at_least_def two)
  from short_args(1) [OF a]
  show "add_email_handler args book =
        (Inr (''not enough values to unpack (expected at least 2, got '' @
              str_nat (length args) @ '')''), book)"
    by (auto simp: add_email_handler_def add_email_body_def input_error_def
        not_enough_at_least_def two)
  from short_args(1) [OF a]
  show "add_birthday_handler args book =
        (Inr (''not enough values to unpack (expected 2, got '' @
              str_nat (length args) @ '')''), book)"
    by (auto simp: add_birthday_handler_def add_birthday_body_def input_error_def
        not_enough_def two)
next
  assume a: "length args < 3"
  have three: "str_nat 3 = ''3''" by code_simp
  from short_args(2) [OF a]
  show "change_phone args book =
        (Inr (''not enough values to unpack (expected 3, got '' @
              str_nat (length args) @ '')''), book)"
    by (auto simp: change_phone_def change_phone_body_def input_error_def not_enough_def three)
  from short_args(2) [OF a]
  show "change_email args book =
        (Inr (''not enough values to unpack (expected 3, got '' @
              str_nat (length args) @ '')''), book)"
    by (auto simp: change_email_def change_email_body_def input_error_def not_enough_def three)
qed

theorem missing_arguments_counterexample:
  "add_contact [''John''] [] =
     (Inr ''not enough values to unpack (expected at least 2, got 1)'', [])"
  by code_simp

theorem missing_arguments_witness:
  "length [''John''] < 2 \<and> length [''John''] < 3 \<and>
   show_phone [] [] = (Inl (IndexError ''list index out of range''), []) \<and>
   add_birthday_handler [''John''] [] =
     (Inr ''not enough values to unpack (expected 2, got 1)'', []) \<and>
   change_phone [''John''] [] =
     (Inr ''not enough values to unpack (expected 3, got 1)'', [])"
proof -
  have one: "str_nat 1 = ''1''" by code_simp
  show ?thesis
    using missing_arguments [of "[]" _ "[''John'']"] one by simp
qed

subsection \<open>Upcoming birthdays\<close>

lemma replace_year_leap_day:
  "leap_day b \<Longrightarrow> \<not> is_leap y \<Longrightarrow> \<exists>e. replace_year b y = Inl e"
  by (simp add: replace_year_def datetime_new_def leap_day_def days_in_month_def
      DAYS_IN_MONTH_def)

lemma replace_year_this_year:
  assumes "stored_birthday b" "1 \<le> y" "y \<le> 9999" "is_leap y \<or> \<not> leap_day b"
  shows "replace_year b y = Inr (b\<lparr>year := y\<rparr>)"
proof -
  have d: "day b \<le> days_in_month y (month b)"
    using assms
    by (auto simp: stored_birthday_def is_date_def days_in_month_def leap_day_def
        DAYS_IN_MONTH_def split: if_splits)
  show ?thesis
    using assms d
    by (simp add: replace_year_def datetime_new_def stored_birthday_def is_date_def
        midnight_def)
qed

lemma upcoming_loop_raises:
  assumes "r \<in> set rs" "birthday r = Some b" "replace_year (val b) (year today) = Inl e"
  shows "\<exists>e'. upcoming_loop today days rs acc = Inl e'"
  using assms
proof (induction rs arbitrary: acc)
  case Nil
  then show ?case by simp
next
  case (Cons x rs)
  show ?case
  proof (cases "x = r")
    case True
    then show ?thesis using Cons.prems by simp
  next
    case False
    then have "r \<in> set rs" using Cons.prems by simp
    from Cons.IH [OF this Cons.prems(2,3)]
    have ih: "\<And>acc. \<exists>e'. upcoming_loop today days rs acc = Inl e'" by blast
    show ?thesis
      using ih [of acc] ih [of "acc @ [x]"]
      by (auto split: option.splits sum.splits)
  qed
qed

lemma upcoming_loop_filter:
  assumes "\<forall>r \<in> set rs. \<forall>b. birthday r = Some b \<longrightarrow>
             replace_year (val b) (year today) = Inr (this_year today (val b))"
    and "timedelta days = Inr days" and "dt_add today days = Inr limit"
  shows "upcoming_loop today days rs acc = Inr (acc @ filter (in_window today limit) rs)"
  using assms(1)
proof (induction rs arbitrary: acc)
  case Nil
  then show ?case by simp
next
  case (Cons x rs)
  then have ih: "\<And>acc. upcoming_loop today days rs acc
      = Inr (acc @ filter (in_window today limit) rs)"
    by simp
  show ?case
  proof (cases "birthday x")
    case None
    then have "\<not> in_window today limit x" by (simp add: in_window_def)
    then show ?thesis using None by (simp add: ih)
  next
    case (Some b)
    then have "replace_year (val b) (year today) = Inr (this_year today (val b))"
      using Cons.prems by simp
    moreover have "in_window today limit x =
        (dt_le today (this_year today (val b)) \<and> dt_le (this_year today (val b)) limit)"
      using Some by (simp add: in_window_def)
    ultimately show ?thesis
      using Some assms(2,3) by (simp add: ih)
  qed
qed

text \<open>
  C9. When the book holds a record whose birthday is 29 February and the year of \<open>today\<close>
  is not a leap year, \<open>get_upcoming_birthdays\<close> returns no list: it raises.
\<close>

theorem leap_day_birthday_raises:
  assumes "(k, r) \<in> set book" and "birthday r = Some b" and "leap_day (val b)"
    and "\<not> is_leap (year today)"
  shows "\<exists>e. get_upcoming_birthdays today days book = Inl e"
proof -
  obtain e where "replace_year (val b) (year today) = Inl e"
    using replace_year_leap_day [OF assms(3,4)] by blast
  moreover have "r \<in> set (map snd book)" using assms(1) by force
  ultimately show ?thesis
    unfolding get_upcoming_birthdays_def using assms(2) by (rule upcoming_loop_raises [rotated 2])
qed

theorem leap_day_birthday_raises_witness:
  "snd (add_birthday_handler [''John'', ''29.02.2020'']
         (snd (add_contact [''John'', ''1234567890''] [])))
     = [(''John'', \<lparr>name = Field ''John'', phones = [Field ''1234567890''], emails = [],
          birthday = Some (Field \<lparr>year = 2020, month = 2, day = 29, hour = 0, minute = 0,
            second = 0, microsecond = 0\<rparr>)\<rparr>)] \<and>
   \<not> is_leap 2021 \<and>
   (\<exists>e. get_upcoming_birthdays
          \<lparr>year = 2021, month = 3, day = 1, hour = 10, minute = 30, second = 0,
             microsecond = 0\<rparr> 7
          [(''John'', \<lparr>name = Field ''John'', phones = [Field ''1234567890''],
            emails = [],
             birthday = Some (Field \<lparr>year = 2020, month = 2, day = 29, hour = 0,
               minute = 0,
               second = 0, microsecond = 0\<rparr>)\<rparr>)] = Inl e)"
proof -
  have b: "snd (add_birthday_handler [''John'', ''29.02.2020'']
         (snd (add_contact [''John'', ''1234567890''] [])))
     = [(''John'', \<lparr>name = Field ''John'', phones = [Field ''1234567890''], emails = [],
          birthday = Some (Field \<lparr>year = 2020, month = 2, day = 29, hour = 0, minute = 0,
            second = 0, microsecond = 0\<rparr>)\<rparr>)]"
    by code_simp
  have l: "\<not> is_leap 2021" by (simp add: is_leap_def)
  show ?thesis
    using b l
      leap_day_birthday_raises [of "''John''"
        "\<lparr>name = Field ''John'', phones = [Field ''1234567890''], emails = [],
          birthday = Some (Field \<lparr>year = 2020, month = 2, day = 29, hour = 0, minute = 0,
            second = 0, microsecond = 0\<rparr>)\<rparr>" _ _
        "\<lparr>year = 2021, month = 3, day = 1, hour = 10, minute = 30, second = 0,
             microsecond = 0\<rparr>" 7]
    by (simp add: leap_day_def)
qed

lemma dt_le_this_year:
  "dt_le today (this_year today b) \<longleftrightarrow>
     lex_le [month today, day today, hour today, minute today, second today, microsecond today]
            [month b, day b, hour b, minute b, second b, microsecond b]"
  by (simp add: dt_le_def dt_fields_def this_year_def)

lemma int_div_base:
  fixes r q k :: int
  assumes "0 \<le> r" "r < k"
  shows "(r + q * k) div k = q" "(r + q * k) mod k = r"
  using assms by simp_all


lemma days_before_year_cycles:
  fixes q a b c :: int
  assumes "0 \<le> a" "a \<le> 3" "0 \<le> b" "b \<le> 24" "0 \<le> c" "c \<le> 3"
    and "y - 1 = 400 * q + 100 * a + 4 * b + c"
  shows "days_before_year y = 146097 * q + 36524 * a + 1461 * b + 365 * c"
proof -
  define y1 where "y1 = y - 1"
  have e4: "y1 = c + (100 * q + 25 * a + b) * 4"
    and e100: "y1 = (4 * b + c) + (4 * q + a) * 100"
    and e400: "y1 = (100 * a + 4 * b + c) + q * 400"
    unfolding y1_def assms(7) by simp_all
  have "y1 div 4 = 100 * q + 25 * a + b"
    unfolding e4 using assms(5,6) by (intro int_div_base(1)) simp_all
  moreover have "y1 div 100 = 4 * q + a"
    unfolding e100 using assms(3-6) by (intro int_div_base(1)) simp_all
  moreover have "y1 div 400 = q"
    unfolding e400 using assms(1-6) by (intro int_div_base(1)) simp_all
  ultimately have "days_before_year y = y1 * 365 + (100 * q + 25 * a + b) - (4 * q + a) + q"
    unfolding days_before_year_def Let_def y1_def by simp
  then show ?thesis unfolding e400 by simp
qed


lemma is_leap_cycles:
  fixes q a b c :: int
  assumes "0 \<le> a" "a \<le> 3" "0 \<le> b" "b \<le> 24" "0 \<le> c" "c \<le> 3"
    and "y - 1 = 400 * q + 100 * a + 4 * b + c"
  shows "is_leap y \<longleftrightarrow> c = 3 \<and> (b \<noteq> 24 \<or> a = 3)"
proof -
  have e4: "y = (c + 1) + (100 * q + 25 * a + b) * 4"
    and e100: "y = (4 * b + c + 1) + (4 * q + a) * 100"
    and e400: "y = (100 * a + 4 * b + c + 1) + q * 400"
    using assms(7) by simp_all
  show ?thesis
  proof (cases "c = 3")
    case False
    then have "0 \<le> c + 1" "c + 1 < 4" using assms(5,6) by simp_all
    then have "y mod 4 = c + 1" unfolding e4 by (rule int_div_base(2))
    then show ?thesis using False assms(5) by (simp add: is_leap_def)
  next
    case True
    have y4: "y mod 4 = 0" unfolding e4 True by simp
    show ?thesis
    proof (cases "b = 24")
      case False
      then have "0 \<le> 4 * b + c + 1" "4 * b + c + 1 < 100" using assms(3,4) True by simp_all
      then have "y mod 100 = 4 * b + c + 1" unfolding e100 by (rule int_div_base(2))
      then show ?thesis using False True y4 assms(3) by (simp add: is_leap_def)
    next
      case b: True
      have y100: "y mod 100 = 0" unfolding e100 True b by simp
      show ?thesis
      proof (cases "a = 3")
        case False
        then have "0 \<le> 100 * a + 4 * b + c + 1" "100 * a + 4 * b + c + 1 < 400"
          using assms(1,2) True b by simp_all
        then have "y mod 400 = 100 * a + 4 * b + c + 1" unfolding e400 by (rule int_div_base(2))
        then show ?thesis using False True b y4 y100 assms(1) by (simp add: is_leap_def)
      next
        case a: True
        have "y mod 400 = 0" unfolding e400 True b a by simp
        then show ?thesis using True b a y4 by (simp add: is_leap_def)
      qed
    qed
  qed
qed



lemma month_estimate:
  fixes e :: int
  assumes "0 \<le> e" "e \<le> 364"
  shows "1 \<le> (e + 50) div 32" "(e + 50) div 32 \<le> 12"
    "32 * ((e + 50) div 32) \<le> e + 50" "e + 50 < 32 * ((e + 50) div 32) + 32"
proof -
  have "50 div 32 \<le> (e + 50) div (32 :: int)" using assms(1) by (intro zdiv_mono1) simp_all
  then show "1 \<le> (e + 50) div 32" by simp
  have "(e + 50) div 32 \<le> 414 div (32 :: int)" using assms(2) by (intro zdiv_mono1) simp_all
  then show "(e + 50) div 32 \<le> 12" by simp
  have "e + 50 = 32 * ((e + 50) div 32) + (e + 50) mod 32" by simp
  moreover have "0 \<le> (e + 50) mod 32" "(e + 50) mod 32 < 32" by simp_all
  ultimately show "32 * ((e + 50) div 32) \<le> e + 50" "e + 50 < 32 * ((e + 50) div 32) + 32"
    by linarith+
qed


lemma month_of_day:
  fixes e :: int
  assumes "0 \<le> e" "e \<le> 364"
  shows "let m = (e + 50) div 32;
             preceding = DAYS_BEFORE_MONTH ! nat m + (if m > 2 \<and> leap then 1 else 0)
         in if preceding > e
            then month_start leap e (m - 1)
                   (preceding - (DAYS_IN_MONTH ! nat (m - 1) + (if m - 1 = 2 \<and> leap then 1 else 0)))
            else month_start leap e m preceding"
proof -
  define m where "m = (e + 50) div 32"
  note me = month_estimate [OF assms, folded m_def]
  have "m = 1 \<or> m = 2 \<or> m = 3 \<or> m = 4 \<or> m = 5 \<or> m = 6 \<or> m = 7 \<or> m = 8 \<or> m = 9 \<or>
      m = 10 \<or> m = 11 \<or> m = 12"
    using me(1,2) by arith
  then have "if DAYS_BEFORE_MONTH ! nat m + (if m > 2 \<and> leap then 1 else 0) > e
            then month_start leap e (m - 1)
                   (DAYS_BEFORE_MONTH ! nat m + (if m > 2 \<and> leap then 1 else 0)
                    - (DAYS_IN_MONTH ! nat (m - 1) + (if m - 1 = 2 \<and> leap then 1 else 0)))
            else month_start leap e m
                   (DAYS_BEFORE_MONTH ! nat m + (if m > 2 \<and> leap then 1 else 0))"
    using me(3,4) assms
    by (elim disjE; cases leap;
        simp add: month_start_def DAYS_BEFORE_MONTH_def DAYS_IN_MONTH_def)
  then show ?thesis unfolding Let_def m_def .
qed





lemma ord2ymd_inverse:
  assumes "1 \<le> n"
  shows "case ord2ymd n of (y, m, d) \<Rightarrow>
           ymd2ord y m d = n \<and> 1 \<le> y \<and> (n \<le> MAXORDINAL \<longrightarrow> y \<le> 9999) \<and>
           1 \<le> m \<and> m \<le> 12 \<and> 1 \<le> d \<and> d \<le> days_in_month y m"
proof -
  define n0 where "n0 = n - 1"
  define q where "q = n0 div 146097"
  define r where "r = n0 mod 146097"
  define a where "a = r div 36524"
  define r1 where "r1 = r mod 36524"
  define b where "b = r1 div 1461"
  define r2 where "r2 = r1 mod 1461"
  define c where "c = r2 div 365"
  define e where "e = r2 mod 365"
  define y where "y = q * 400 + 1 + (a * 100 + b * 4 + c)"
  define leapyear where "leapyear = (c = 3 \<and> (b \<noteq> 24 \<or> a = 3))"
  define m0 where "m0 = (e + 50) div 32"
  define p0 where "p0 = DAYS_BEFORE_MONTH ! nat m0 + (if m0 > 2 \<and> leapyear then 1 else 0)"
  define p1 where "p1 = p0 - (DAYS_IN_MONTH ! nat (m0 - 1) + (if m0 - 1 = 2 \<and> leapyear then 1 else 0))"
  have o: "ord2ymd n =
      (if c = 4 \<or> a = 4 then (y - 1, 12, 31)
       else if p0 > e then (y, m0 - 1, e - p1 + 1) else (y, m0, e - p0 + 1))"
    unfolding ord2ymd_def Let_def p1_def p0_def m0_def leapyear_def y_def e_def c_def r2_def
      b_def r1_def a_def r_def q_def n0_def
    by simp
  have n0: "0 \<le> n0" "n = n0 + 1" using assms unfolding n0_def by simp_all
  have eq: "n0 = 146097 * q + r" "r = 36524 * a + r1" "r1 = 1461 * b + r2" "r2 = 365 * c + e"
    unfolding q_def r_def a_def r1_def b_def r2_def c_def e_def by simp_all
  have rb: "0 \<le> r" "r < 146097" "0 \<le> r1" "r1 < 36524" "0 \<le> r2" "r2 < 1461" "0 \<le> e" "e < 365"
    unfolding r_def r1_def r2_def e_def by simp_all
  have nn: "0 \<le> q" "0 \<le> a" "0 \<le> b" "0 \<le> c"
    unfolding q_def a_def b_def c_def using n0(1) rb by (simp_all add: pos_imp_zdiv_nonneg_iff)
  have ub: "a \<le> 4" "b \<le> 24" "c \<le> 4"
    using eq rb nn by linarith+
  have ymax: "400 * q + 100 * a + 4 * b + c \<le> 9998" if "n \<le> MAXORDINAL"
  proof -
    have m: "n0 \<le> 3652058" using that n0(2) unfolding MAXORDINAL_def by simp
    then have q24: "q \<le> 24" using eq rb nn by linarith
    show ?thesis
    proof (cases "q = 24")
      case False
      then have "q \<le> 23" using q24 by simp
      then show ?thesis using ub by linarith
    next
      case q: True
      then have r: "r \<le> 145730" using m eq(1) by simp
      then have a3: "a \<le> 3" using eq rb nn by linarith
      show ?thesis
      proof (cases "a = 3")
        case False
        then have "a \<le> 2" using a3 by simp
        then show ?thesis using q ub by linarith
      next
        case a: True
        then have r1: "r1 \<le> 36158" using r eq(2) by simp
        show ?thesis
        proof (cases "b = 24")
          case False
          then have "b \<le> 23" using ub(2) by simp
          then show ?thesis using q a ub by linarith
        next
          case b: True
          then have "r2 \<le> 1094" using r1 eq(3) by simp
          then have "c \<le> 2" using eq(4) rb nn by linarith
          then show ?thesis using q a b by linarith
        qed
      qed
    qed
  qed
  have ym: "n \<le> MAXORDINAL \<longrightarrow> y \<le> 9999" "n \<le> MAXORDINAL \<longrightarrow> y - 1 \<le> 9999"
    using ymax unfolding y_def by auto
  show ?thesis
  proof (cases "a = 4")
    case True
    then have z: "r1 = 0" "b = 0" "r2 = 0" "c = 0" "e = 0"
      using eq rb nn by linarith+
    have y1: "(y - 1) - 1 = 400 * q + 100 * 3 + 4 * 24 + 3"
      unfolding y_def True z by simp
    have d: "days_before_year (y - 1) = 146097 * q + 36524 * 3 + 1461 * 24 + 365 * 3"
      by (rule days_before_year_cycles [OF _ _ _ _ _ _ y1]) simp_all
    have l: "is_leap (y - 1)"
      using is_leap_cycles [OF _ _ _ _ _ _ y1] by simp
    have "ymd2ord (y - 1) 12 31 = n"
      unfolding ymd2ord_def days_before_month_def d n0(2) eq(1) eq(2) True z
      using l by (simp add: DAYS_BEFORE_MONTH_def)
    moreover have "1 \<le> y - 1" unfolding y_def True z using nn(1) by simp
    moreover have "days_in_month (y - 1) 12 = 31"
      by (simp add: days_in_month_def DAYS_IN_MONTH_def)
    ultimately show ?thesis unfolding o using True ym by simp
  next
    case a3: False
    then have a: "a \<le> 3" using ub(1) by simp
    show ?thesis
    proof (cases "c = 4")
      case True
      then have z: "e = 0" "b \<le> 23"
        using eq rb nn by linarith+
      have y1: "(y - 1) - 1 = 400 * q + 100 * a + 4 * b + 3"
        unfolding y_def True by simp
      have b24: "b \<le> 24" "b \<noteq> 24" using z(2) by simp_all
      have d: "days_before_year (y - 1) = 146097 * q + 36524 * a + 1461 * b + 365 * 3"
        by (rule days_before_year_cycles [OF nn(2) a nn(3) b24(1) _ _ y1]) simp_all
      have l: "is_leap (y - 1)"
        using is_leap_cycles [OF nn(2) a nn(3) b24(1) _ _ y1] b24(2) by simp
      have "ymd2ord (y - 1) 12 31 = n"
        unfolding ymd2ord_def days_before_month_def d n0(2) eq(1) eq(2) eq(3) eq(4) True z(1)
        using l by (simp add: DAYS_BEFORE_MONTH_def)
      moreover have "1 \<le> y - 1" unfolding y_def True using nn by simp
      moreover have "days_in_month (y - 1) 12 = 31"
        by (simp add: days_in_month_def DAYS_IN_MONTH_def)
      ultimately show ?thesis unfolding o using True ym by simp
    next
      case False
      then have c: "c \<le> 3" using ub(3) by simp
      have y1: "y - 1 = 400 * q + 100 * a + 4 * b + c"
        unfolding y_def by simp
      have d: "days_before_year y = 146097 * q + 36524 * a + 1461 * b + 365 * c"
        by (rule days_before_year_cycles [OF nn(2) a nn(3) ub(2) nn(4) c y1])
      have l: "is_leap y = leapyear"
        unfolding leapyear_def by (rule is_leap_cycles [OF nn(2) a nn(3) ub(2) nn(4) c y1])
      have n: "n = days_before_year y + e + 1"
        unfolding d n0(2) eq(1) eq(2) eq(3) eq(4) by simp
      have yp: "1 \<le> y" unfolding y_def using nn by simp
      have e364: "e \<le> 364" using rb(8) by simp
      note md = month_of_day [OF rb(7) e364, of leapyear, unfolded Let_def, folded m0_def,
          folded p0_def, folded p1_def]
      show ?thesis
      proof (cases "p0 > e")
        case True
        then have "month_start leapyear e (m0 - 1) p1" using md by simp
        then have "ymd2ord y (m0 - 1) (e - p1 + 1) = n \<and> 1 \<le> m0 - 1 \<and> m0 - 1 \<le> 12 \<and>
            1 \<le> e - p1 + 1 \<and> e - p1 + 1 \<le> days_in_month y (m0 - 1)"
          unfolding month_start_def ymd2ord_def days_before_month_def days_in_month_def l n
          by auto
        then show ?thesis unfolding o using True a3 False yp ym by simp
      next
        case p: False
        then have "month_start leapyear e m0 p0" using md by simp
        then have "ymd2ord y m0 (e - p0 + 1) = n \<and> 1 \<le> m0 \<and> m0 \<le> 12 \<and>
            1 \<le> e - p0 + 1 \<and> e - p0 + 1 \<le> days_in_month y m0"
          unfolding month_start_def ymd2ord_def days_before_month_def days_in_month_def l n
          by auto
        then show ?thesis unfolding o using p a3 False yp ym by simp
      qed
    qed
  qed
qed



lemma dt_add_days_after:
  assumes "dt_add dt n = Inr dt'"
  shows "days_after dt n dt'"
proof -
  define k where "k = ymd2ord (year dt) (month dt) (day dt) + n"
  have k: "0 < k" "k \<le> MAXORDINAL"
    and d: "dt' = (case ord2ymd k of (y, m, d) \<Rightarrow> dt\<lparr>year := y, month := m, day := d\<rparr>)"
    using assms unfolding dt_add_def Let_def k_def by (auto split: if_splits prod.splits)
  obtain y m d where o: "ord2ymd k = (y, m, d)" by (cases "ord2ymd k") auto
  have "1 \<le> k" using k(1) by simp
  from ord2ymd_inverse [OF this] k(2)
  have "ymd2ord y m d = k" "1 \<le> y" "y \<le> 9999" "1 \<le> m" "m \<le> 12" "1 \<le> d"
    "d \<le> days_in_month y m"
    unfolding o by simp_all
  moreover have "dt' = dt\<lparr>year := y, month := m, day := d\<rparr>"
    using d o by simp
  ultimately show ?thesis
    unfolding days_after_def is_date_def k_def by simp
qed

text \<open>
  What the function computes. Let no stored birthday be 29 February while the year of
  \<open>today\<close> is not a leap year, and let \<open>today + timedelta(days)\<close> be a \<open>datetime\<close>,
  \<open>limit\<close>: it is then the date \<open>days\<close> days after that of \<open>today\<close>, at the same time of
  day. Then the function returns, in the order of the book, the records with a birthday
  whose month and day in the year of \<open>today\<close>, at midnight, lie between \<open>today\<close> and
  \<open>limit\<close>, where \<open>today\<close> is \<open>datetime.now()\<close>, the date with the time of day.
\<close>

lemma upcoming_loop_window:
  assumes "is_date today" and "is_time today"
    and "\<forall>r \<in> set (map snd book). \<forall>b. birthday r = Some b \<longrightarrow>
           stored_birthday (val b) \<and> (is_leap (year today) \<or> \<not> leap_day (val b))"
    and "\<bar>days\<bar> \<le> 999999999" and "dt_add today days = Inr limit"
  shows "get_upcoming_birthdays today days book
           = Inr (filter (in_window today limit) (map snd book)) \<and>
         (\<forall>r \<in> set (map snd book). \<forall>b. birthday r = Some b \<and> in_window today limit r \<longrightarrow>
            month today < month (val b) \<or>
            (month today = month (val b) \<and> day today \<le> day (val b))) \<and>
         (\<forall>r \<in> set (map snd book). \<forall>b. birthday r = Some b \<and>
            month (val b) = month today \<and> day (val b) = day today \<and> \<not> midnight today \<longrightarrow>
            \<not> in_window today limit r) \<and>
         days_after today days limit"
proof (intro conjI ballI allI impI)
  have y: "1 \<le> year today" "year today \<le> 9999"
    using assms(1) by (simp_all add: is_date_def)
  have "\<forall>r \<in> set (map snd book). \<forall>b. birthday r = Some b \<longrightarrow>
           replace_year (val b) (year today) = Inr (this_year today (val b))"
    using assms(3) y by (auto simp: this_year_def intro!: replace_year_this_year)
  moreover have "timedelta days = Inr days"
    using assms(4) by (auto simp: timedelta_def)
  ultimately show "get_upcoming_birthdays today days book
           = Inr (filter (in_window today limit) (map snd book))"
    unfolding get_upcoming_birthdays_def
    using assms(5) upcoming_loop_filter [where acc = "[]"] by simp
next
  fix r b
  assume "r \<in> set (map snd book)" and "birthday r = Some b \<and> in_window today limit r"
  then have "dt_le today (this_year today (val b))"
    by (auto simp: in_window_def)
  then show "month today < month (val b) \<or>
            (month today = month (val b) \<and> day today \<le> day (val b))"
    unfolding dt_le_this_year by auto
next
  fix r b
  assume r: "r \<in> set (map snd book)"
    and b: "birthday r = Some b \<and>
            month (val b) = month today \<and> day (val b) = day today \<and> \<not> midnight today"
  then have "midnight (val b)"
    using assms(3) by (auto simp: stored_birthday_def)
  then have "\<not> dt_le today (this_year today (val b))"
    using b assms(2) unfolding dt_le_this_year
    by (auto simp: midnight_def is_time_def)
  then show "\<not> in_window today limit r"
    using b by (auto simp: in_window_def)
next
  show "days_after today days limit"
    using assms(5) by (rule dt_add_days_after)
qed

text \<open>
  C1. \<open>get_upcoming_birthdays(days)\<close> is to return the records whose birthday, in the
  current year, falls in the window from today to today + \<open>days\<close>, both ends included.
  The function does not: a birthday on the current date is in the window, and the record is
  left out. The loop compares \<open>datetime.now()\<close>, which carries the time of day, with the
  birthday at midnight of the current year, so that \<open>today <= next_birthday\<close> is false on
  the day itself; the record is returned only when the call is made at midnight to the
  microsecond. Here the book holds Cid, born on 10 June 2000, and the call is made for 7
  days on 10 June 2024, at 09:00 and at midnight.
\<close>

theorem birthday_today_left_out:
  "get_upcoming_birthdays
     \<lparr>year = 2024, month = 6, day = 10, hour = 9, minute = 0, second = 0,
       microsecond = 0\<rparr> 7
     [(''Cid'', \<lparr>name = Field ''Cid'', phones = [], emails = [],
       birthday = Some (Field \<lparr>year = 2000, month = 6, day = 10, hour = 0, minute = 0,
         second = 0, microsecond = 0\<rparr>)\<rparr>)]
   = Inr [] \<and>
   get_upcoming_birthdays
     \<lparr>year = 2024, month = 6, day = 10, hour = 0, minute = 0, second = 0,
       microsecond = 0\<rparr> 7
     [(''Cid'', \<lparr>name = Field ''Cid'', phones = [], emails = [],
       birthday = Some (Field \<lparr>year = 2000, month = 6, day = 10, hour = 0, minute = 0,
         second = 0, microsecond = 0\<rparr>)\<rparr>)]
   = Inr [\<lparr>name = Field ''Cid'', phones = [], emails = [],
       birthday = Some (Field \<lparr>year = 2000, month = 6, day = 10, hour = 0, minute = 0,
         second = 0, microsecond = 0\<rparr>)\<rparr>]"
  by code_simp

subsection \<open>Birthdays read by \<open>strptime\<close>\<close>

lemma rx_match_lang_Alt:
  assumes a: "\<And>s t. t \<in> set (rx_match a s) \<longleftrightarrow> (\<exists>u \<in> set (lang_list a). s = u @ t)"
    and b: "\<And>s t. t \<in> set (rx_match b s) \<longleftrightarrow> (\<exists>u \<in> set (lang_list b). s = u @ t)"
  shows "t \<in> set (rx_match (Alt a b) s) \<longleftrightarrow> (\<exists>u \<in> set (lang_list (Alt a b)). s = u @ t)"
proof -
  have "t \<in> set (rx_match (Alt a b) s) \<longleftrightarrow>
      t \<in> set (rx_match a s) \<or> t \<in> set (rx_match b s)" by simp
  also have "\<dots> \<longleftrightarrow> (\<exists>u \<in> set (lang_list a). s = u @ t) \<or> (\<exists>u \<in> set (lang_list b). s = u @ t)"
    using a b by simp
  also have "\<dots> \<longleftrightarrow> (\<exists>u \<in> set (lang_list (Alt a b)). s = u @ t)"
    by (simp add: bex_Un)
  finally show ?thesis .
qed

lemma rx_match_lang_Seq:
  assumes a: "\<And>s t. t \<in> set (rx_match a s) \<longleftrightarrow> (\<exists>u \<in> set (lang_list a). s = u @ t)"
    and b: "\<And>s t. t \<in> set (rx_match b s) \<longleftrightarrow> (\<exists>u \<in> set (lang_list b). s = u @ t)"
  shows "t \<in> set (rx_match (Seq a b) s) \<longleftrightarrow> (\<exists>u \<in> set (lang_list (Seq a b)). s = u @ t)"
proof -
  have "t \<in> set (rx_match (Seq a b) s) \<longleftrightarrow>
      (\<exists>t1. t1 \<in> set (rx_match a s) \<and> t \<in> set (rx_match b t1))"
    by auto
  also have "\<dots> \<longleftrightarrow>
      (\<exists>t1. (\<exists>u \<in> set (lang_list a). s = u @ t1) \<and> (\<exists>v \<in> set (lang_list b). t1 = v @ t))"
    using a b by simp
  also have "\<dots> \<longleftrightarrow> (\<exists>u \<in> set (lang_list a). \<exists>v \<in> set (lang_list b). s = u @ v @ t)"
    by blast
  also have "\<dots> \<longleftrightarrow> (\<exists>w \<in> set (lang_list (Seq a b)). s = w @ t)"
    by auto
  finally show ?thesis .
qed

lemma rx_match_lang:
  "finite_rx r \<Longrightarrow> t \<in> set (rx_match r s) \<longleftrightarrow> (\<exists>u \<in> set (lang_list r). s = u @ t)"
proof (induction r arbitrary: s t)
  case Eps
  show ?case by auto
next
  case (Chars cs)
  show ?case by (cases s) auto
next
  case (NotChars cs)
  then show ?case by (simp only: finite_rx.simps)
next
  case (Seq a b)
  have "finite_rx a" "finite_rx b" using Seq.prems by simp_all
  then show ?case
    using Seq.IH by (intro rx_match_lang_Seq) blast+
next
  case (Alt a b)
  have "finite_rx a" "finite_rx b" using Alt.prems by simp_all
  then show ?case
    using Alt.IH by (intro rx_match_lang_Alt) blast+
next
  case (Plus a)
  then show ?case by (simp only: finite_rx.simps)
qed

lemma day_group:
  "list_all (\<lambda>D. CHR ''.'' \<notin> set D \<and> 1 \<le> py_int D \<and> py_int D \<le> 31 \<and>
       D \<in> set (day_texts (py_int D))) (lang_list rx_d)"
  by code_simp

lemma day_group_conv:
  "list_all (\<lambda>d. list_all (\<lambda>D. D \<in> set (lang_list rx_d) \<and> py_int D = d) (day_texts d)) [1..31]"
  by code_simp

lemma month_group:
  "list_all (\<lambda>M. CHR ''.'' \<notin> set M \<and> 1 \<le> py_int M \<and> py_int M \<le> 12 \<and>
       M \<in> set (month_texts (py_int M))) (lang_list rx_m)"
  by code_simp

lemma month_group_conv:
  "list_all (\<lambda>m. list_all (\<lambda>M. M \<in> set (lang_list rx_m) \<and> py_int M = m) (month_texts m)) [1..12]"
  by code_simp


lemma split_at_dot:
  "CHR ''.'' \<notin> set D \<Longrightarrow> CHR ''.'' \<notin> set D' \<Longrightarrow> D @ CHR ''.'' # x = D' @ CHR ''.'' # x'
     \<Longrightarrow> D = D' \<and> x = x'"
proof (induction D arbitrary: D')
  case Nil
  then show ?case by (cases D') auto
next
  case (Cons c D)
  then show ?case by (cases D') auto
qed

lemma captures_iff:
  "(D, t) \<in> set (captures r s) \<longleftrightarrow> t \<in> set (rx_match r s) \<and> D = take (length s - length t) s"
  by (auto simp: captures_def)

lemma captures_lang:
  assumes "finite_rx r"
  shows "(D, t) \<in> set (captures r s) \<longleftrightarrow> D \<in> set (lang_list r) \<and> s = D @ t"
  unfolding captures_iff rx_match_lang [OF assms] by auto

lemma captures_Y:
  "(Y, t) \<in> set (captures rx_Y s) \<longleftrightarrow> length Y = 4 \<and> list_all is_decimal_digit Y \<and> s = Y @ t"
proof -
  have "(Y, t) \<in> set (captures rx_Y s) \<longleftrightarrow>
      (4 \<le> length s \<and> list_all is_decimal_digit (take 4 s)) \<and> t = drop 4 s \<and> Y = take 4 s"
    unfolding captures_iff rx_Y_def rx_match_rep_digit by auto
  also have "\<dots> \<longleftrightarrow> length Y = 4 \<and> list_all is_decimal_digit Y \<and> s = Y @ t"
    by (auto simp: min_def)
  finally show ?thesis .
qed

lemma match_dot: "t \<in> set (rx_match (Chars ''.'') s) \<longleftrightarrow> s = CHR ''.'' # t"
  by (cases s) auto

lemma finite_rx_d: "finite_rx rx_d" and finite_rx_m: "finite_rx rx_m"
  by (simp_all add: rx_d_def rx_m_def digit_def)

lemma strptime_match_iff:
  "(D, M, Y, r) \<in> set (strptime_match s) \<longleftrightarrow>
     D \<in> set (lang_list rx_d) \<and> M \<in> set (lang_list rx_m) \<and>
     length Y = 4 \<and> list_all is_decimal_digit Y \<and> s = D @ ''.'' @ M @ ''.'' @ Y @ r"
proof -
  have "(D, M, Y, r) \<in> set (strptime_match s) \<longleftrightarrow>
      (\<exists>r1 r2 r3 r4. (D,
        r1) \<in> set (captures rx_d s) \<and> r2 \<in> set (rx_match (Chars ''.'') r1) \<and>
         (M, r3) \<in> set (captures rx_m r2) \<and> r4 \<in> set (rx_match (Chars ''.'') r3) \<and>
         (Y, r) \<in> set (captures rx_Y r4))"
    unfolding strptime_match_def by (simp del: rx_match.simps) blast
  also have "\<dots> \<longleftrightarrow>
      (\<exists>r1 r2 r3 r4. (D \<in> set (lang_list rx_d) \<and> s = D @ r1) \<and> r1 = CHR ''.'' # r2 \<and>
         (M \<in> set (lang_list rx_m) \<and> r2 = M @ r3) \<and> r3 = CHR ''.'' # r4 \<and>
         (length Y = 4 \<and> list_all is_decimal_digit Y \<and> r4 = Y @ r))"
    unfolding captures_lang [OF finite_rx_d] captures_lang [OF finite_rx_m] captures_Y match_dot ..
  also have "\<dots> \<longleftrightarrow> D \<in> set (lang_list rx_d) \<and> M \<in> set (lang_list rx_m) \<and>
     length Y = 4 \<and> list_all is_decimal_digit Y \<and> s = D @ ''.'' @ M @ ''.'' @ Y @ r"
    by auto
  finally show ?thesis .
qed


lemma day_text_facts:
  assumes "D \<in> set (lang_list rx_d)"
  shows "CHR ''.'' \<notin> set D" "1 \<le> py_int D" "py_int D \<le> 31" "D \<in> set (day_texts (py_int D))"
  using day_group assms unfolding list_all_iff by blast+

lemma month_text_facts:
  assumes "M \<in> set (lang_list rx_m)"
  shows "CHR ''.'' \<notin> set M" "1 \<le> py_int M" "py_int M \<le> 12" "M \<in> set (month_texts (py_int M))"
  using month_group assms unfolding list_all_iff by blast+

lemma day_texts_facts:
  assumes "1 \<le> d" "d \<le> 31" "D \<in> set (day_texts d)"
  shows "D \<in> set (lang_list rx_d)" "py_int D = d"
proof -
  have "d \<in> set [1..31]" using assms by simp
  then have "list_all (\<lambda>D. D \<in> set (lang_list rx_d) \<and> py_int D = d) (day_texts d)"
    using day_group_conv unfolding list_all_iff by blast
  then show "D \<in> set (lang_list rx_d)" "py_int D = d"
    using assms(3) unfolding list_all_iff by blast+
qed

lemma month_texts_facts:
  assumes "1 \<le> m" "m \<le> 12" "M \<in> set (month_texts m)"
  shows "M \<in> set (lang_list rx_m)" "py_int M = m"
proof -
  have "m \<in> set [1..12]" using assms by simp
  then have "list_all (\<lambda>M. M \<in> set (lang_list rx_m) \<and> py_int M = m) (month_texts m)"
    using month_group_conv unfolding list_all_iff by blast
  then show "M \<in> set (lang_list rx_m)" "py_int M = m"
    using assms(3) unfolding list_all_iff by blast+
qed

lemma strptime_match_unique:
  assumes "x \<in> set (strptime_match s)" "y \<in> set (strptime_match s)"
  shows "x = y"
proof -
  obtain D M Y r where x: "x = (D, M, Y, r)" by (cases x) auto
  obtain D' M' Y' r' where y: "y = (D', M', Y', r')" by (cases y) auto
  have a: "D \<in> set (lang_list rx_d)" "M \<in> set (lang_list rx_m)" "length Y = 4"
    "s = D @ CHR ''.'' # (M @ CHR ''.'' # (Y @ r))"
    using assms(1) unfolding x strptime_match_iff by simp_all
  have b: "D' \<in> set (lang_list rx_d)" "M' \<in> set (lang_list rx_m)" "length Y' = 4"
    "s = D' @ CHR ''.'' # (M' @ CHR ''.'' # (Y' @ r'))"
    using assms(2) unfolding y strptime_match_iff by simp_all
  have "D = D' \<and> M @ CHR ''.'' # (Y @ r) = M' @ CHR ''.'' # (Y' @ r')"
    using a(4) b(4) day_text_facts(1) [OF a(1)] day_text_facts(1) [OF b(1)]
    by (intro split_at_dot) simp_all
  moreover from this have "M = M' \<and> Y @ r = Y' @ r'"
    using month_text_facts(1) [OF a(2)] month_text_facts(1) [OF b(2)]
    by (intro split_at_dot) simp_all
  moreover from this have "Y = Y' \<and> r = r'"
    using a(3) b(3) by simp
  ultimately show ?thesis unfolding x y by simp
qed

lemma strptime_iff:
  "strptime s = Inr dt \<longleftrightarrow>
     (\<exists>D M Y. (D, M, Y, []) \<in> set (strptime_match s) \<and>
        datetime_new (py_int Y) (py_int M) (py_int D) 0 0 0 0 = Inr dt)"
proof
  assume a: "strptime s = Inr dt"
  show "\<exists>D M Y. (D, M, Y, []) \<in> set (strptime_match s) \<and>
        datetime_new (py_int Y) (py_int M) (py_int D) 0 0 0 0 = Inr dt"
  proof (cases "strptime_match s")
    case Nil
    then show ?thesis using a by (simp add: strptime_def)
  next
    case (Cons x xs)
    obtain D M Y r where x: "x = (D, M, Y, r)" by (cases x) auto
    have "r = []" "datetime_new (py_int Y) (py_int M) (py_int D) 0 0 0 0 = Inr dt"
      using a Cons x by (auto simp: strptime_def split: if_splits)
    then show ?thesis using Cons x by auto
  qed
next
  assume "\<exists>D M Y. (D, M, Y, []) \<in> set (strptime_match s) \<and>
        datetime_new (py_int Y) (py_int M) (py_int D) 0 0 0 0 = Inr dt"
  then obtain D M Y where m: "(D, M, Y, []) \<in> set (strptime_match s)"
    and d: "datetime_new (py_int Y) (py_int M) (py_int D) 0 0 0 0 = Inr dt"
    by blast
  then obtain x xs where c: "strptime_match s = x # xs"
    by (cases "strptime_match s") auto
  then have "x = (D, M, Y, [])"
    using m by (intro strptime_match_unique [of _ s]) simp_all
  then show "strptime s = Inr dt"
    using c d by (simp add: strptime_def)
qed


lemma digit_char_facts:
  "is_decimal_digit (digit_char n)" "digit_val (digit_char n) = int (n mod 10)"
  "digit_char n \<noteq> CHR '' ''"
proof -
  define k where "k = n mod 10"
  have "k = 0 \<or> k = 1 \<or> k = 2 \<or> k = 3 \<or> k = 4 \<or> k = 5 \<or> k = 6 \<or> k = 7 \<or> k = 8 \<or> k = 9"
    unfolding k_def by arith
  then have "is_decimal_digit (''0123456789'' ! k) \<and> digit_val (''0123456789'' ! k) = int k \<and>
      ''0123456789'' ! k \<noteq> CHR '' ''"
    by (elim disjE; simp add: is_decimal_digit_def digit_val_def)
  then show "is_decimal_digit (digit_char n)" "digit_val (digit_char n) = int (n mod 10)"
    "digit_char n \<noteq> CHR '' ''"
    unfolding digit_char_def k_def by simp_all
qed


lemma decimal_digit_facts:
  assumes "is_decimal_digit c"
  shows "0 \<le> digit_val c" "digit_val c \<le> 9" "digit_char (nat (digit_val c)) = c" "c \<noteq> CHR '' ''"
proof -
  have "c \<in> set ''0123456789''" using assms digit_set_iff by simp
  then have "c = CHR ''0'' \<or> c = CHR ''1'' \<or> c = CHR ''2'' \<or> c = CHR ''3'' \<or> c = CHR ''4'' \<or>
      c = CHR ''5'' \<or> c = CHR ''6'' \<or> c = CHR ''7'' \<or> c = CHR ''8'' \<or> c = CHR ''9''"
    by auto
  then have "0 \<le> digit_val c \<and> digit_val c \<le> 9 \<and> digit_char (nat (digit_val c)) = c \<and>
      c \<noteq> CHR '' ''"
    by (elim disjE; simp add: digit_val_def digit_char_def)
  then show "0 \<le> digit_val c" "digit_val c \<le> 9" "digit_char (nat (digit_val c)) = c"
    "c \<noteq> CHR '' ''"
    by simp_all
qed


lemma digit_char_mod: "digit_char (n mod 10) = digit_char n"
  by (simp add: digit_char_def)






lemma div_mod_base:
  fixes r q k :: nat
  assumes "r < k"
  shows "(r + q * k) div k = q" "(r + q * k) mod k = r"
  using assms by simp_all


lemma digits_of_sum:
  fixes va vb vc vd :: nat
  assumes "va \<le> 9" "vb \<le> 9" "vc \<le> 9" "vd \<le> 9"
  shows "(1000 * va + 100 * vb + 10 * vc + vd) div 1000 mod 10 = va"
    "(1000 * va + 100 * vb + 10 * vc + vd) div 100 mod 10 = vb"
    "(1000 * va + 100 * vb + 10 * vc + vd) div 10 mod 10 = vc"
    "(1000 * va + 100 * vb + 10 * vc + vd) mod 10 = vd"
proof -
  define n where "n = 1000 * va + 100 * vb + 10 * vc + vd"
  define q1 where "q1 = 100 * va + 10 * vb + vc"
  define q2 where "q2 = 10 * va + vb"
  define r2 where "r2 = 10 * vc + vd"
  define r3 where "r3 = 100 * vb + 10 * vc + vd"
  have e1: "n = vd + q1 * 10" and e2: "n = r2 + q2 * 100" and e3: "n = r3 + va * 1000"
    and e4: "q1 = vc + q2 * 10" and e5: "q2 = vb + va * 10" and e6: "va = va + 0 * 10"
    unfolding n_def q1_def q2_def r2_def r3_def by simp_all
  have b: "vd < 10" "r2 < 100" "r3 < 1000" "vc < 10" "vb < 10" "va < 10"
    using assms unfolding r2_def r3_def by simp_all
  have "n div 1000 = va" unfolding e3 using b(3) by (rule div_mod_base(1))
  moreover have "va mod 10 = va" using b(6) by simp
  ultimately show "(1000 * va + 100 * vb + 10 * vc + vd) div 1000 mod 10 = va"
    unfolding n_def by simp
  have "n div 100 = q2" unfolding e2 using b(2) by (rule div_mod_base(1))
  moreover have "q2 mod 10 = vb" unfolding e5 using b(5) by (rule div_mod_base(2))
  ultimately show "(1000 * va + 100 * vb + 10 * vc + vd) div 100 mod 10 = vb"
    unfolding n_def by simp
  have "n div 10 = q1" unfolding e1 using b(1) by (rule div_mod_base(1))
  moreover have "q1 mod 10 = vc" unfolding e4 using b(4) by (rule div_mod_base(2))
  ultimately show "(1000 * va + 100 * vb + 10 * vc + vd) div 10 mod 10 = vc"
    unfolding n_def by simp
  have "n mod 10 = vd" unfolding e1 using b(1) by (rule div_mod_base(2))
  then show "(1000 * va + 100 * vb + 10 * vc + vd) mod 10 = vd"
    unfolding n_def by simp
qed


lemma list_of_four: "length (Y :: 'a list) = 4 \<Longrightarrow> \<exists>a b c d. Y = [a, b, c,
  d]"
  by (cases Y; cases "tl Y"; cases "tl (tl Y)"; cases "tl (tl (tl Y))"; simp)



lemma four_digits:
  assumes "length Y = 4" "list_all is_decimal_digit Y"
  shows "Y = pad4 (py_int Y)" "0 \<le> py_int Y" "py_int Y \<le> 9999"
proof -
  obtain a b c d where Y: "Y = [a, b, c, d]"
    using list_of_four [OF assms(1)] by blast
  have dg: "is_decimal_digit a" "is_decimal_digit b" "is_decimal_digit c" "is_decimal_digit d"
    using assms(2) Y by simp_all
  note fa = decimal_digit_facts [OF dg(1)] and fb = decimal_digit_facts [OF dg(2)]
    and fc = decimal_digit_facts [OF dg(3)] and fd = decimal_digit_facts [OF dg(4)]
  define va vb vc vd where "va = nat (digit_val a)" and "vb = nat (digit_val b)"
    and "vc = nat (digit_val c)" and "vd = nat (digit_val d)"
  have bounds: "va \<le> 9" "vb \<le> 9" "vc \<le> 9" "vd \<le> 9"
    using fa(2) fb(2) fc(2) fd(2) unfolding va_def vb_def vc_def vd_def by simp_all
  have chars: "digit_char va = a" "digit_char vb = b" "digit_char vc = c" "digit_char vd = d"
    using fa(3) fb(3) fc(3) fd(3) unfolding va_def vb_def vc_def vd_def by simp_all
  have vals: "digit_val a = int va" "digit_val b = int vb" "digit_val c = int vc"
    "digit_val d = int vd"
    using fa(1) fb(1) fc(1) fd(1) unfolding va_def vb_def vc_def vd_def by simp_all
  define n where "n = 1000 * va + 100 * vb + 10 * vc + vd"
  have p: "py_int Y = int n"
    using fa(4) by (simp add: py_int_def Y vals n_def)
  show "0 \<le> py_int Y" unfolding p by simp
  show "py_int Y \<le> 9999" unfolding p n_def using bounds by simp
  note m = digits_of_sum [OF bounds, folded n_def]
  have "pad4 (py_int Y) = [digit_char (n div 1000 mod 10), digit_char (n div 100 mod 10),
      digit_char (n div 10 mod 10), digit_char (n mod 10)]"
    unfolding p pad4_def nat_int digit_char_mod ..
  then show "Y = pad4 (py_int Y)" unfolding m Y chars by simp
qed



lemma four_digit_number:
  fixes n :: nat
  assumes "n \<le> 9999"
  shows "1000 * (n div 1000 mod 10) + 100 * (n div 100 mod 10) + 10 * (n div 10 mod 10)
      + n mod 10 = n"
proof -
  define a b c where "a = n div 10" and "b = a div 10" and "c = b div 10"
  have d: "n div 10 = a" "n div 100 = b" "n div 1000 = c"
    unfolding a_def b_def c_def by (simp_all add: div_mult2_eq)
  have "c < 10" using assms unfolding d(3) [symmetric] by simp
  then have c: "c mod 10 = c" by simp
  have "n = 10 * a + n mod 10" "a = 10 * b + a mod 10" "b = 10 * c + b mod 10"
    unfolding a_def b_def c_def by simp_all
  then have "n = 1000 * c + 100 * (b mod 10) + 10 * (a mod 10) + n mod 10"
    by linarith
  then show ?thesis unfolding d c by simp
qed


lemma pad4_facts:
  assumes "0 \<le> y" "y \<le> 9999"
  shows "length (pad4 y) = 4" "list_all is_decimal_digit (pad4 y)" "py_int (pad4 y) = y"
proof -
  define n where "n = nat y"
  have n: "n \<le> 9999" "y = int n" using assms unfolding n_def by simp_all
  show "length (pad4 y) = 4" by (simp add: pad4_def)
  show "list_all is_decimal_digit (pad4 y)" by (simp add: pad4_def digit_char_facts)
  have "py_int (pad4 y) = int (1000 * (n div 1000 mod 10) + 100 * (n div 100 mod 10)
      + 10 * (n div 10 mod 10) + n mod 10)"
    by (simp add: pad4_def py_int_def digit_char_facts n_def)
  then show "py_int (pad4 y) = y" unfolding four_digit_number [OF n(1)] n(2) .
qed



lemma datetime_new_date:
  "datetime_new y m d 0 0 0 0 = Inr dt \<longleftrightarrow>
     stored_birthday dt \<and> year dt = y \<and> month dt = m \<and> day dt = d"
  by (auto simp: datetime_new_def stored_birthday_def is_date_def midnight_def
      split: if_splits)






lemma Birthday_strptime: "Birthday v = Inr (Field dt) \<longleftrightarrow> strptime v = Inr dt"
  by (auto simp: Birthday_def split: sum.splits error.splits)




lemma days_in_month_le: "1 \<le> m \<Longrightarrow> m \<le> 12 \<Longrightarrow> days_in_month y m \<le> 31"
proof -
  assume "1 \<le> m" "m \<le> 12"
  then have "m = 1 \<or> m = 2 \<or> m = 3 \<or> m = 4 \<or> m = 5 \<or> m = 6 \<or> m = 7 \<or> m = 8 \<or> m = 9 \<or>
      m = 10 \<or> m = 11 \<or> m = 12"
    by arith
  then show ?thesis
    by (elim disjE; simp add: days_in_month_def DAYS_IN_MONTH_def)
qed


lemma birthday_texts_iff:
  "v \<in> set (birthday_texts dt) \<longleftrightarrow>
     (\<exists>D \<in> set (day_texts (day dt)). \<exists>M \<in> set (month_texts (month dt)).
        v = D @ ''.'' @ M @ ''.'' @ pad4 (year dt))"
  unfolding birthday_texts_def by auto


lemma Birthday_iff:
  "Birthday v = Inr (Field dt) \<longleftrightarrow> stored_birthday dt \<and> v \<in> set (birthday_texts dt)"
proof
  assume "Birthday v = Inr (Field dt)"
  then obtain D M Y where m: "(D, M, Y, []) \<in> set (strptime_match v)"
    and d: "datetime_new (py_int Y) (py_int M) (py_int D) 0 0 0 0 = Inr dt"
    unfolding Birthday_strptime strptime_iff by blast
  have l: "D \<in> set (lang_list rx_d)" "M \<in> set (lang_list rx_m)" "length Y = 4"
    "list_all is_decimal_digit Y" "v = D @ ''.'' @ M @ ''.'' @ Y"
    using m unfolding strptime_match_iff by simp_all
  have s: "stored_birthday dt" "year dt = py_int Y" "month dt = py_int M" "day dt = py_int D"
    using d unfolding datetime_new_date by simp_all
  have "D \<in> set (day_texts (day dt))" using day_text_facts(4) [OF l(1)] s(4) by simp
  moreover have "M \<in> set (month_texts (month dt))"
    using month_text_facts(4) [OF l(2)] s(3) by simp
  moreover have "Y = pad4 (year dt)" using four_digits(1) [OF l(3,4)] s(2) by simp
  ultimately have "v \<in> set (birthday_texts dt)"
    unfolding birthday_texts_iff using l(5) by blast
  then show "stored_birthday dt \<and> v \<in> set (birthday_texts dt)" using s(1) by simp
next
  assume a: "stored_birthday dt \<and> v \<in> set (birthday_texts dt)"
  then obtain D M where D: "D \<in> set (day_texts (day dt))"
    and M: "M \<in> set (month_texts (month dt))"
    and v: "v = D @ ''.'' @ M @ ''.'' @ pad4 (year dt)"
    unfolding birthday_texts_iff by blast
  have r: "1 \<le> year dt" "year dt \<le> 9999" "1 \<le> month dt" "month dt \<le> 12" "1 \<le> day dt"
    "day dt \<le> days_in_month (year dt) (month dt)"
    using a by (simp_all add: stored_birthday_def is_date_def)
  have d31: "day dt \<le> 31" using r(6) days_in_month_le [OF r(3,4), of "year dt"] by simp
  note dd = day_texts_facts [OF r(5) d31 D] and mm = month_texts_facts [OF r(3,4) M]
  have y0: "0 \<le> year dt" using r(1) by simp
  note yy = pad4_facts [OF y0 r(2)]
  have "(D, M, pad4 (year dt), []) \<in> set (strptime_match v)"
    unfolding strptime_match_iff using dd(1) mm(1) yy(1,2) v by simp
  moreover have "datetime_new (py_int (pad4 (year dt))) (py_int M) (py_int D) 0 0 0 0 = Inr dt"
    unfolding datetime_new_date dd(2) mm(2) yy(3) using a by simp
  ultimately show "Birthday v = Inr (Field dt)"
    unfolding Birthday_strptime strptime_iff by blast
qed




subsection \<open>The listing of all contacts\<close>

lemma pad2_day_text: "0 \<le> d \<Longrightarrow> pad2 d \<in> set (day_texts d)"
  by (simp add: day_texts_def pad2_def digit_char_def)


lemma pad2_month_text: "0 \<le> m \<Longrightarrow> pad2 m \<in> set (month_texts m)"
  by (simp add: month_texts_def pad2_def digit_char_def)


lemma strftime_reads_back:
  assumes "stored_birthday b" "pads \<or> 1000 \<le> year b"
  shows "strftime pads b = pad2 (day b) @ ''.'' @ pad2 (month b) @ ''.'' @ pad4 (year b)"
    and "length (strftime pads b) = 10"
    and "Birthday (strftime pads b) = Inr (Field b)"
proof -
  show s: "strftime pads b = pad2 (day b) @ ''.'' @ pad2 (month b) @ ''.'' @ pad4 (year b)"
    using assms(2) by (auto simp: strftime_def)
  show "length (strftime pads b) = 10"
    unfolding s by (simp add: pad2_def pad4_def)
  have "0 \<le> day b" "0 \<le> month b"
    using assms(1) by (simp_all add: stored_birthday_def is_date_def)
  then have "strftime pads b \<in> set (birthday_texts b)"
    unfolding s birthday_texts_iff using pad2_day_text pad2_month_text by blast
  then show "Birthday (strftime pads b) = Inr (Field b)"
    unfolding Birthday_iff using assms(1) by simp
qed



lemma dict_entry_once:
  assumes "distinct (map fst book)" "map_of book k = Some v"
  shows "\<exists>i < length book. book ! i = (k,
    v) \<and> (\<forall>j < length book. fst (book ! j) = k \<longleftrightarrow> j = i)"
proof -
  have "(k, v) \<in> set book" using assms(2) by (rule map_of_SomeD)
  then obtain i where i: "i < length book" "book ! i = (k, v)"
    unfolding in_set_conv_nth by blast
  have ki: "map fst book ! i = k" using i by simp
  have u: "j = i" if "j < length book" "fst (book ! j) = k" for j
  proof -
    have "map fst book ! j = map fst book ! i" unfolding ki using that by simp
    moreover have "j < length (map fst book)" "i < length (map fst book)"
      using that(1) i(1) by simp_all
    ultimately show ?thesis
      using nth_eq_iff_index_eq [OF assms(1)] by blast
  qed
  have c: "fst (book ! i) = k" using i(2) by simp
  show ?thesis
    by (rule exI [of _ i]) (use i u c in blast)
qed


lemma dict_set_absent: "k \<notin> set (map fst d) \<Longrightarrow> dict_set k v d = d @ [(k,
  v)]"
  by (induction d) auto


lemma dict_set_last: "k \<notin> set (map fst d) \<Longrightarrow> dict_set k v (d @ [(k,
  w)]) = d @ [(k, v)]"
  by (induction d) auto


lemma add_new_contact:
  assumes "find book nm = None" "phone \<noteq> []" "Phone_validate phone"
  shows "add_contact [nm, phone] book =
     (Inr ''Contact added.'',
      book @ [(nm, \<lparr>name = Field nm, phones = [Field phone], emails = [],
        birthday = None\<rparr>)])"
proof -
  have k: "nm \<notin> set (map fst book)"
    using assms(1) unfolding find_def map_of_eq_None_iff by simp
  show ?thesis
    using assms dict_set_absent [OF k] dict_set_last [OF k]
    by (simp add: add_contact_def add_contact_body_def input_error_def method_result_def
        add_phone_def Phone_def add_record_def Record_def)
qed

text \<open>
  C8, as amended. \<open>add\<close> with a new name and a valid phone puts the contact at the end of
  the book. For a contact of the book, \<open>all\<close> answers the heading and one line for each
  entry in order, joined by newlines, and exactly one entry, so one line, is the
  contact's: \<open>Contact name:\<close> the name, \<open>phones:\<close> the phone values joined by \<open>"; "\<close>,
  \<open>emails:\<close> the email values joined by \<open>"; "\<close>, \<open>birthday:\<close> the birthday as \<open>strftime\<close>
  prints it, or \<open>N/A\<close>. The birthday is two digits, two digits and four digits between
  dots, and \<open>Birthday\<close> reads it back, when its year is 1000 or later or the platform pads
  the year; a platform that does not pad prints an earlier year with fewer digits.
\<close>

theorem all_lists_each_contact_once:
  "(find book0 nm = None \<and> phone \<noteq> [] \<and> Phone_validate phone \<longrightarrow>
      add_contact [nm, phone] book0 =
        (Inr ''Contact added.'',
         book0 @ [(nm, \<lparr>name = Field nm, phones = [Field phone], emails = [],
                          birthday = None\<rparr>)])) \<and>
   (distinct (map fst book) \<and> keys_are_names book \<and> find book nm = Some r \<longrightarrow>
      list_contacts pads args book =
        (Inr (join [CHR 0x0A]
               (''Contacts in address book:'' # map (\<lambda>e. Record_str pads (snd e)) book)),
         book) \<and>
      (\<exists>i < length book. (\<forall>j < length book. fst (book ! j) = nm \<longleftrightarrow> j = i) \<and>
         (''Contacts in address book:'' # map (\<lambda>e. Record_str pads (snd e)) book) ! Suc i
           = Record_str pads r) \<and>
      Record_str pads r =
        ''Contact name: '' @ nm @ '', phones: '' @ join ''; '' (map val (phones r)) @
        '', emails: '' @ join ''; '' (map val (emails r)) @ '', birthday: '' @
        (case birthday r of None \<Rightarrow> ''N/A'' | Some b \<Rightarrow> strftime pads (val b)) \<and>
      (\<forall>b. birthday r = Some b \<and> stored_birthday (val b) \<and> (pads \<or> 1000 \<le> year (val b)) \<longrightarrow>
         strftime pads (val b) =
           pad2 (day (val b)) @ ''.'' @ pad2 (month (val b)) @ ''.'' @ pad4 (year (val b)) \<and>
         Birthday (strftime pads (val b)) = Inr b))"
proof (intro conjI impI allI)
  assume "find book0 nm = None \<and> phone \<noteq> [] \<and> Phone_validate phone"
  then show "add_contact [nm, phone] book0 =
        (Inr ''Contact added.'',
         book0 @ [(nm, \<lparr>name = Field nm, phones = [Field phone], emails = [],
                          birthday = None\<rparr>)])"
    by (intro add_new_contact) simp_all
next
  assume a: "distinct (map fst book) \<and> keys_are_names book \<and> find book nm = Some r"
  then have ne: "book \<noteq> []" by (auto simp: find_def)
  then show "list_contacts pads args book =
        (Inr (join [CHR 0x0A]
               (''Contacts in address book:'' # map (\<lambda>e. Record_str pads (snd e)) book)),
         book)"
    by (simp add: list_contacts_def list_contacts_body_def input_error_def)
  from a obtain i where i: "i < length book" "book ! i = (nm, r)"
    "\<forall>j < length book. fst (book ! j) = nm \<longleftrightarrow> j = i"
    using dict_entry_once [of book nm r] unfolding find_def by blast
  then have "(''Contacts in address book:'' # map (\<lambda>e. Record_str pads (snd e)) book) ! Suc i
           = Record_str pads r"
    by simp
  then show "\<exists>i < length book. (\<forall>j < length book. fst (book ! j) = nm \<longleftrightarrow> j = i) \<and>
         (''Contacts in address book:'' # map (\<lambda>e. Record_str pads (snd e)) book) ! Suc i
           = Record_str pads r"
    using i(1,3) by blast
  have "(nm, r) \<in> set book" using i(1,2) by (metis nth_mem)
  then have "val (name r) = nm"
    using a unfolding keys_are_names_def list_all_iff by force
  then show "Record_str pads r =
        ''Contact name: '' @ nm @ '', phones: '' @ join ''; '' (map val (phones r)) @
        '', emails: '' @ join ''; '' (map val (emails r)) @ '', birthday: '' @
        (case birthday r of None \<Rightarrow> ''N/A'' | Some b \<Rightarrow> strftime pads (val b))"
    by (simp add: Record_str_def)
next
  fix b
  assume "birthday r = Some b \<and> stored_birthday (val b) \<and> (pads \<or> 1000 \<le> year (val b))"
  then have s: "stored_birthday (val b)" "pads \<or> 1000 \<le> year (val b)" by simp_all
  show "strftime pads (val b) =
           pad2 (day (val b)) @ ''.'' @ pad2 (month (val b)) @ ''.'' @ pad4 (year (val b))"
    by (rule strftime_reads_back(1) [OF s])
  show "Birthday (strftime pads (val b)) = Inr b"
    using strftime_reads_back(3) [OF s] by simp
qed


theorem all_lists_each_contact_once_counterexample:
  "fst (list_contacts False []
     (snd (add_birthday_handler [''John'', ''01.01.0999'']
       (snd (add_contact [''John'', ''1234567890''] [])))))
   = Inr (''Contacts in address book:'' @ [CHR 0x0A] @
          ''Contact name: John, phones: 1234567890, emails: , birthday: 01.01.999'')"
  by code_simp




theorem all_lists_each_contact_once_witness:
  "add_contact [''John'', ''1234567890''] [] =
     (Inr ''Contact added.'',
      [(''John'', \<lparr>name = Field ''John'', phones = [Field ''1234567890''], emails = [],
                   birthday = None\<rparr>)]) \<and>
   list_contacts False []
     [(''John'', \<lparr>name = Field ''John'', phones = [Field ''1234567890''], emails = [],
       birthday = Some (Field \<lparr>year = 1990, month = 6, day = 15, hour = 0, minute = 0,
       second = 0, microsecond = 0\<rparr>)\<rparr>)]
   = (Inr (''Contacts in address book:'' @ [CHR 0x0A] @ ''Contact name: John, phones: 1234567890, emails: , birthday: 15.06.1990''),
      [(''John'', \<lparr>name = Field ''John'', phones = [Field ''1234567890''], emails = [],
        birthday = Some (Field \<lparr>year = 1990, month = 6, day = 15, hour = 0, minute = 0,
        second = 0, microsecond = 0\<rparr>)\<rparr>)]) \<and>
   Birthday ''15.06.1990'' = Inr (Field \<lparr>year = 1990, month = 6, day = 15, hour = 0,
      minute = 0, second = 0, microsecond = 0\<rparr>)"
proof -
  have p: "find [] ''John'' = None \<and> ''1234567890'' \<noteq> [] \<and> Phone_validate ''1234567890''"
    by code_simp
  have h: "distinct (map fst [(''John'', \<lparr>name = Field ''John'',
    phones = [Field ''1234567890''], emails = [], birthday = Some (Field \<lparr>year = 1990,
    month = 6, day = 15, hour = 0, minute = 0, second = 0,
    microsecond = 0\<rparr>)\<rparr>)]) \<and>
      keys_are_names [(''John'', \<lparr>name = Field ''John'', phones = [Field ''1234567890''],
        emails = [], birthday = Some (Field \<lparr>year = 1990, month = 6, day = 15, hour = 0,
        minute = 0, second = 0, microsecond = 0\<rparr>)\<rparr>)] \<and>
      find [(''John'', \<lparr>name = Field ''John'', phones = [Field ''1234567890''],
        emails = [], birthday = Some (Field \<lparr>year = 1990, month = 6, day = 15, hour = 0,
        minute = 0, second = 0, microsecond = 0\<rparr>)\<rparr>)] ''John''
        = Some (\<lparr>name = Field ''John'', phones = [Field ''1234567890''], emails = [],
          birthday = Some (Field \<lparr>year = 1990, month = 6, day = 15, hour = 0, minute = 0,
          second = 0, microsecond = 0\<rparr>)\<rparr>)"
    by (simp add: keys_are_names_def find_def)
  have s: "stored_birthday \<lparr>year = 1990, month = 6, day = 15, hour = 0,
      minute = 0, second = 0, microsecond = 0\<rparr>"
    by (simp add: stored_birthday_def is_date_def midnight_def days_in_month_def
        DAYS_IN_MONTH_def)
  have j: "join [CHR 0x0A] (''Contacts in address book:'' #
      map (\<lambda>e. Record_str False (snd e)) [(''John'', \<lparr>name = Field ''John'',
        phones = [Field ''1234567890''], emails = [],
        birthday = Some (Field \<lparr>year = 1990, month = 6, day = 15, hour = 0, minute = 0,
        second = 0, microsecond = 0\<rparr>)\<rparr>)])
    = ''Contacts in address book:'' @ [CHR 0x0A] @ ''Contact name: John, phones: 1234567890, emails: , birthday: 15.06.1990''"
    by code_simp
  have f: "strftime False \<lparr>year = 1990, month = 6, day = 15, hour = 0,
      minute = 0, second = 0, microsecond = 0\<rparr> = ''15.06.1990''"
    by code_simp
  note t = all_lists_each_contact_once [of "[]" "''John''" "''1234567890''"
        "[(''John'', \<lparr>name = Field ''John'', phones = [Field ''1234567890''],
          emails = [], birthday = Some (Field \<lparr>year = 1990, month = 6, day = 15,
          hour = 0, minute = 0, second = 0,
          microsecond = 0\<rparr>)\<rparr>)]" "\<lparr>name = Field ''John'',
          phones = [Field ''1234567890''], emails = [],
          birthday = Some (Field \<lparr>year = 1990, month = 6, day = 15, hour = 0, minute = 0,
          second = 0, microsecond = 0\<rparr>)\<rparr>" False "[]"]
  from t p have a: "add_contact [''John'', ''1234567890''] [] =
     (Inr ''Contact added.'',
      [(''John'', \<lparr>name = Field ''John'', phones = [Field ''1234567890''], emails = [],
                   birthday = None\<rparr>)])"
    by simp
  from t h have "list_contacts False [] [(''John'', \<lparr>name = Field ''John'',
    phones = [Field ''1234567890''], emails = [], birthday = Some (Field \<lparr>year = 1990,
    month = 6, day = 15, hour = 0, minute = 0, second = 0, microsecond = 0\<rparr>)\<rparr>)]
      = (Inr (join [CHR 0x0A] (''Contacts in address book:'' #
           map (\<lambda>e. Record_str False (snd e)) [(''John'', \<lparr>name = Field ''John'',
             phones = [Field ''1234567890''], emails = [],
             birthday = Some (Field \<lparr>year = 1990, month = 6, day = 15, hour = 0,
             minute = 0, second = 0, microsecond = 0\<rparr>)\<rparr>)])),
         [(''John'', \<lparr>name = Field ''John'', phones = [Field ''1234567890''],
           emails = [], birthday = Some (Field \<lparr>year = 1990, month = 6, day = 15,
           hour = 0, minute = 0, second = 0, microsecond = 0\<rparr>)\<rparr>)])"
    by blast
  then have l: "list_contacts False [] [(''John'', \<lparr>name = Field ''John'',
    phones = [Field ''1234567890''], emails = [], birthday = Some (Field \<lparr>year = 1990,
    month = 6, day = 15, hour = 0, minute = 0, second = 0, microsecond = 0\<rparr>)\<rparr>)]
      = (Inr (''Contacts in address book:'' @ [CHR 0x0A] @
          ''Contact name: John, phones: 1234567890, emails: , birthday: 15.06.1990''),
         [(''John'', \<lparr>name = Field ''John'', phones = [Field ''1234567890''],
           emails = [], birthday = Some (Field \<lparr>year = 1990, month = 6, day = 15,
           hour = 0, minute = 0, second = 0, microsecond = 0\<rparr>)\<rparr>)])"
    unfolding j .
  from t h have "\<forall>b. birthday (\<lparr>name = Field ''John'',
    phones = [Field ''1234567890''], emails = [], birthday = Some (Field \<lparr>year = 1990,
    month = 6, day = 15, hour = 0, minute = 0, second = 0,
    microsecond = 0\<rparr>)\<rparr>) = Some b \<and> stored_birthday (val b) \<and>
      (False \<or> 1000 \<le> year (val b)) \<longrightarrow> Birthday (strftime False (val b)) = Inr b"
    by blast
  then have "Birthday (strftime False \<lparr>year = 1990, month = 6, day = 15, hour = 0,
    minute = 0, second = 0, microsecond = 0\<rparr>) = Inr (Field \<lparr>year = 1990,
    month = 6, day = 15, hour = 0, minute = 0, second = 0, microsecond = 0\<rparr>)"
    using s by simp
  then have b: "Birthday ''15.06.1990'' = Inr (Field \<lparr>year = 1990, month = 6, day = 15,
    hour = 0, minute = 0, second = 0, microsecond = 0\<rparr>)"
    unfolding f .
  show ?thesis
    by (intro conjI) (rule a, rule l, rule b)
qed

end
